theory Spec2Isabelle
  imports Complex_Main "HOL-Library.Sublist" "HOL-Library.Multiset"
begin

section \<open>Strings and literal regular expressions\<close>

text \<open>
  JavaScript strings are modelled as \<open>string\<close>. The regular expressions of
  \<^verbatim>\<open>getSvnErrorCode\<close> are built from literals without metacharacters, so
  \<^verbatim>\<open>regex.test(s)\<close> is a substring search: it tries the literal at every
  position of \<open>s\<close>, from left to right.
\<close>

fun test_literal :: "string \<Rightarrow> string \<Rightarrow> bool" where
  "test_literal pat [] = (pat = [])"
| "test_literal pat (c # cs) = (prefix pat (c # cs) \<or> test_literal pat cs)"

section \<open>The error classifier (svn.ts, getSvnErrorCode)\<close>

text \<open>
  \<^verbatim>\<open>svnErrorCodes\<close> is an object literal; \<^verbatim>\<open>for (const name in svnErrorCodes)\<close>
  visits its keys in insertion order, so the table is an association list.
\<close>

definition svnErrorCodes :: "(string \<times> string) list" where
  "svnErrorCodes =
     [(''AuthorizationFailed'', ''E170001''),
      (''RepositoryIsLocked'', ''E155004''),
      (''NotASvnRepository'', ''E155007''),
      (''NotShareCommonAncestry'', ''E195012''),
      (''WorkingCopyIsTooOld'', ''E155036'')]"

text \<open>The \<^verbatim>\<open>for ... in\<close> loop: the first entry whose token is found returns its code.\<close>

fun scan_codes :: "(string \<times> string) list \<Rightarrow> string \<Rightarrow> string option" where
  "scan_codes [] stderr = None"
| "scan_codes ((name, code) # rest) stderr =
     (if test_literal (''svn: '' @ code) stderr then Some code
      else scan_codes rest stderr)"

definition credentials_phrase :: string where
  "credentials_phrase = ''No more credentials or we tried too many times''"

definition getSvnErrorCode :: "string \<Rightarrow> string option" where
  "getSvnErrorCode stderr =
     (case scan_codes svnErrorCodes stderr of
        Some code \<Rightarrow> Some code
      | None \<Rightarrow>
          if test_literal credentials_phrase stderr
          then map_of svnErrorCodes ''AuthorizationFailed''
          else None)"

section \<open>Sanitising stderr for display (svn.ts, Svn.exec)\<close>

text \<open>
  \<^verbatim>\<open>stderr.replace(/^svn: E\d+: +/gm, "")\<close>. With the flags \<open>g\<close> and \<open>m\<close>
  the pattern is tried at the start of the text and behind every line terminator, and the
  scan goes on behind each match.

  A JavaScript string is modelled by the bytes of its UTF-8 encoding, the bytes that
  \<^verbatim>\<open>Buffer.toString()\<close> decodes. The patterns of this file are ASCII, and in UTF-8 an
  ASCII byte, or the three bytes of one character, stand only where that character stands.
  The line terminators of JavaScript are line feed, carriage return, U+2028 (the bytes
  E2 80 A8) and U+2029 (the bytes E2 80 A9).
\<close>

definition is_digit :: "char \<Rightarrow> bool" where
  "is_digit c = (c \<in> set ''0123456789'')"

text \<open>The length of the line terminator at the head of the text, 0 when there is none.\<close>

fun terminator_length :: "string \<Rightarrow> nat" where
  "terminator_length [] = 0"
| "terminator_length (c # cs) =
     (if c = CHR 0x0A \<or> c = CHR 0x0D then 1
      else if c = CHR 0xE2
              \<and> (take 2 cs = [CHR 0x80, CHR 0xA8] \<or> take 2 cs = [CHR 0x80, CHR 0xA9])
           then 3
      else 0)"

text \<open>
  One attempt of \<^verbatim>\<open>svn: E\d+: +\<close> at the head of \<open>s\<close>: the text behind the match, if
  it matches. Both \<^verbatim>\<open>\d+\<close> and \<^verbatim>\<open> +\<close> are greedy, and giving characters back
  never helps, since what follows \<^verbatim>\<open>\d+\<close> must be a colon.
\<close>

definition match_prefix :: "string \<Rightarrow> string option" where
  "match_prefix s =
     (if prefix ''svn: E'' s then
        (let s1 = drop 6 s;
             digits = takeWhile is_digit s1;
             s2 = dropWhile is_digit s1
         in if digits \<noteq> [] \<and> prefix '': '' s2
            then Some (dropWhile (\<lambda>c. c = CHR '' '') (drop 2 s2))
            else None)
      else None)"

lemma match_prefix_shorter: "match_prefix s = Some rest \<Longrightarrow> length rest < length s"
proof -
  assume a: "match_prefix s = Some rest"
  then have p: "prefix ''svn: E'' s" by (auto simp: match_prefix_def split: if_splits)
  then obtain t where s: "s = ''svn: E'' @ t" by (auto simp: prefix_def)
  from a s have "rest = dropWhile (\<lambda>c. c = CHR '' '') (drop 2 (dropWhile is_digit t))"
    by (auto simp: match_prefix_def Let_def split: if_splits)
  then have "length rest \<le> length t"
    by (metis length_dropWhile_le length_drop diff_le_self le_trans)
  with s show ?thesis by simp
qed

text \<open>
  The scan: \<open>bol\<close> says that the position is the start of the text or follows a line
  terminator. Behind a match the position follows a space, so it starts no line.
\<close>

function replace_prefixes :: "bool \<Rightarrow> string \<Rightarrow> string" where
  "replace_prefixes bol [] = []"
| "replace_prefixes bol (c # cs) =
     (case (if bol then match_prefix (c # cs) else None) of
        Some rest \<Rightarrow> replace_prefixes False rest
      | None \<Rightarrow>
          if terminator_length (c # cs) = 0 then c # replace_prefixes False cs
          else take (terminator_length (c # cs)) (c # cs)
               @ replace_prefixes True (drop (terminator_length (c # cs)) (c # cs)))"
  by pat_completeness auto
termination
  by (relation "measure (\<lambda>(bol, s). length s)")
     (auto split: if_splits dest: match_prefix_shorter)

definition stderr_formated :: "string \<Rightarrow> string" where
  "stderr_formated stderr = replace_prefixes True stderr"











section \<open>The process executor (svn.ts, Svn.exec)\<close>

text \<open>A Node \<^verbatim>\<open>Buffer\<close> is a list of bytes.\<close>

type_synonym buffer = "char list"

text \<open>
  \<^verbatim>\<open>ICpOptions\<close>: every field may be absent. The fields carry the prefix \<open>opt_\<close>;
  \<open>opt_log\<close> is \<^verbatim>\<open>options.log\<close>, \<open>opt_encoding\<close> is \<^verbatim>\<open>options.encoding\<close>.
\<close>

record cp_options =
  opt_cwd :: "string option"
  opt_log :: "bool option"
  opt_username :: "string option"
  opt_password :: "string option"
  opt_encoding :: "string option"

text \<open>What \<^verbatim>\<open>jschardet.detect\<close> returns.\<close>

record encoding_guess =
  confidence :: real
  guess_encoding :: string

text \<open>
  The libraries and the configuration that \<^verbatim>\<open>exec\<close> calls are parameters:
  \<^verbatim>\<open>iconv.encodingExists\<close>, \<^verbatim>\<open>isUtf8\<close>, \<^verbatim>\<open>jschardet.detect\<close>,
  \<^verbatim>\<open>iconv.decode\<close>, \<^verbatim>\<open>Buffer.toString\<close> and
  \<^verbatim>\<open>configuration.get("default.encoding")\<close>. Every call of \<^verbatim>\<open>exec\<close> that reaches
  the detector first adds 0.001 to \<^verbatim>\<open>jschardet.MacCyrillicModel.mTypicalPositiveRatio\<close>,
  a global of the detector, so \<open>detect\<close> takes the number of additions made so far.
\<close>

record env =
  encodingExists :: "string \<Rightarrow> bool"
  isUtf8 :: "buffer \<Rightarrow> bool"
  detect :: "nat \<Rightarrow> buffer \<Rightarrow> encoding_guess"
  decode :: "buffer \<Rightarrow> string \<Rightarrow> string"
  bufferToString :: "buffer \<Rightarrow> string"
  default_encoding :: "string option"

text \<open>
  The state that outlives a call: the fields of the \<^verbatim>\<open>Svn\<close> object, the lines emitted
  as \<^verbatim>\<open>log\<close> events on \<^verbatim>\<open>_onOutput\<close> (oldest first), and the number of additions
  to the detector's global.
\<close>

record svn =
  svnPath :: string
  version :: string
  lastCwd :: string
  onOutput :: "string list"
  ratio_bumps :: nat

definition logOutput :: "string \<Rightarrow> svn \<Rightarrow> svn" where
  "logOutput line s = s\<lparr>onOutput := onOutput s @ [line]\<rparr>"

text \<open>A string, or an absent value, as a JavaScript condition.\<close>

fun truthy :: "string option \<Rightarrow> bool" where
  "truthy None = False"
| "truthy (Some s) = (s \<noteq> [])"

subsection \<open>The invocation echo\<close>

text \<open>\<^verbatim>\<open>/ |^$/.test(arg) ? `'${arg}'` : arg\<close>: an argument with a space, or the empty one, is quoted.\<close>

definition quote_arg :: "string \<Rightarrow> string" where
  "quote_arg arg = (if CHR '' '' \<in> set arg \<or> arg = [] then [CHR 0x27] @ arg @ [CHR 0x27] else arg)"

text \<open>\<^verbatim>\<open>argsOut.join(" ")\<close>.\<close>

fun join :: "string \<Rightarrow> string list \<Rightarrow> string" where
  "join sep [] = []"
| "join sep [x] = x"
| "join sep (x # y # ys) = x @ sep @ join sep (y # ys)"

text \<open>
  \<^verbatim>\<open>lastCwd.split(/[\\\/]+/).pop()\<close>: the text behind the last slash or backslash (all of
  it when there is none, nothing when it ends in one).
\<close>

definition is_separator :: "char \<Rightarrow> bool" where
  "is_separator c = (c = CHR 0x5C \<or> c = CHR ''/'')"

definition last_segment :: "string \<Rightarrow> string" where
  "last_segment p = rev (takeWhile (\<lambda>c. \<not> is_separator c) (rev p))"

definition echo_line :: "string \<Rightarrow> string list \<Rightarrow> string" where
  "echo_line cwd args =
     ''['' @ last_segment cwd @ '']$ svn '' @ join '' '' (map quote_arg args) @ [CHR 0x0A]"

subsection \<open>The child process and its listeners\<close>

text \<open>
  The three event emitters of a spawned process, and what the process does: the events it
  emits, in the order in which Node delivers them. The \<^verbatim>\<open>exit\<close> event carries the exit
  code, which is \<^verbatim>\<open>null\<close> (\<open>None\<close>) when a signal ended the process; the listener of
  \<^verbatim>\<open>exec\<close> takes this first argument only.
\<close>

datatype emitter = Process | ProcessStdout | ProcessStderr

datatype event =
    ProcError string
  | ProcExit "int option"
  | StdoutData buffer
  | StdoutClose
  | StderrData buffer
  | StderrClose

fun event_emitter :: "event \<Rightarrow> emitter" where
  "event_emitter (ProcError e) = Process"
| "event_emitter (ProcExit c) = Process"
| "event_emitter (StdoutData b) = ProcessStdout"
| "event_emitter StdoutClose = ProcessStdout"
| "event_emitter (StderrData b) = ProcessStderr"
| "event_emitter StderrClose = ProcessStderr"

fun event_name :: "event \<Rightarrow> string" where
  "event_name (ProcError e) = ''error''"
| "event_name (ProcExit c) = ''exit''"
| "event_name (StdoutData b) = ''data''"
| "event_name StdoutClose = ''close''"
| "event_name (StderrData b) = ''data''"
| "event_name StderrClose = ''close''"

text \<open>The six callbacks that \<^verbatim>\<open>exec\<close> registers, in the order of the source.\<close>

datatype callback =
    Reject
  | ResolveExit
  | PushStdout
  | ResolveStdout
  | PushStderr
  | ResolveStderr

record listener =
  on_emitter :: emitter
  on_name :: string
  is_once :: bool
  fn :: callback

text \<open>
  The locals of one call while it waits: the listeners registered on the three emitters,
  the \<^verbatim>\<open>disposables\<close> array (each entry removes the listener \<open>(ee, name, fn)\<close>), the two
  \<^verbatim>\<open>buffers\<close> arrays and the three promises handed to \<^verbatim>\<open>Promise.all\<close> (\<open>None\<close> is
  pending; the first promise is rejected with \<open>Inl\<close> or resolved with \<open>Inr\<close>).
\<close>

record waiting =
  listeners :: "listener list"
  disposables :: "(emitter \<times> string \<times> callback) list"
  stdout_buffers :: "buffer list"
  stderr_buffers :: "buffer list"
  exit_promise :: "(string + int option) option"
  stdout_promise :: "buffer option"
  stderr_promise :: "string option"

definition once :: "emitter \<Rightarrow> string \<Rightarrow> callback \<Rightarrow> waiting \<Rightarrow> waiting" where
  "once ee name f w =
     w\<lparr>listeners := listeners w @ [\<lparr>on_emitter = ee, on_name = name, is_once = True, fn = f\<rparr>],
       disposables := disposables w @ [(ee, name, f)]\<rparr>"

definition on :: "emitter \<Rightarrow> string \<Rightarrow> callback \<Rightarrow> waiting \<Rightarrow> waiting" where
  "on ee name f w =
     w\<lparr>listeners := listeners w @ [\<lparr>on_emitter = ee, on_name = name, is_once = False, fn = f\<rparr>],
       disposables := disposables w @ [(ee, name, f)]\<rparr>"

text \<open>The executors of the three promises run at once, in the order of the array.\<close>

definition registered :: waiting where
  "registered =
     (once ProcessStderr ''close'' ResolveStderr \<circ>
      on ProcessStderr ''data'' PushStderr \<circ>
      once ProcessStdout ''close'' ResolveStdout \<circ>
      on ProcessStdout ''data'' PushStdout \<circ>
      once Process ''exit'' ResolveExit \<circ>
      once Process ''error'' Reject)
       \<lparr>listeners = [], disposables = [], stdout_buffers = [], stderr_buffers = [],
        exit_promise = None, stdout_promise = None, stderr_promise = None\<rparr>"

text \<open>A callback runs. Settling a promise that is settled already changes nothing.\<close>

fun invoke :: "env \<Rightarrow> callback \<Rightarrow> event \<Rightarrow> waiting \<Rightarrow> waiting" where
  "invoke env Reject (ProcError e) w =
     (if exit_promise w = None then w\<lparr>exit_promise := Some (Inl e)\<rparr> else w)"
| "invoke env ResolveExit (ProcExit c) w =
     (if exit_promise w = None then w\<lparr>exit_promise := Some (Inr c)\<rparr> else w)"
| "invoke env PushStdout (StdoutData b) w = w\<lparr>stdout_buffers := stdout_buffers w @ [b]\<rparr>"
| "invoke env ResolveStdout StdoutClose w =
     (if stdout_promise w = None
      then w\<lparr>stdout_promise := Some (concat (stdout_buffers w))\<rparr> else w)"
| "invoke env PushStderr (StderrData b) w = w\<lparr>stderr_buffers := stderr_buffers w @ [b]\<rparr>"
| "invoke env ResolveStderr StderrClose w =
     (if stderr_promise w = None
      then w\<lparr>stderr_promise := Some (bufferToString env (concat (stderr_buffers w)))\<rparr> else w)"
| "invoke env f ev w = w"

definition listens :: "event \<Rightarrow> listener \<Rightarrow> bool" where
  "listens ev l = (on_emitter l = event_emitter ev \<and> on_name l = event_name ev)"

text \<open>
  \<^verbatim>\<open>emit\<close>: the listeners of the event run in the order of their registration; one
  registered with \<^verbatim>\<open>once\<close> is taken off its emitter before it runs.
\<close>

definition emit :: "env \<Rightarrow> event \<Rightarrow> waiting \<Rightarrow> waiting" where
  "emit env ev w =
     fold (\<lambda>l. invoke env (fn l) ev) (filter (listens ev) (listeners w))
       (w\<lparr>listeners := filter (\<lambda>l. \<not> (listens ev l \<and> is_once l)) (listeners w)\<rparr>)"

text \<open>
  \<^verbatim>\<open>Promise.all\<close> of the three promises: rejected as soon as the first one is, resolved
  once all three are, pending otherwise.
\<close>

definition promise_all ::
  "waiting \<Rightarrow> (string + int option \<times> buffer \<times> string) option" where
  "promise_all w =
     (case exit_promise w of
        None \<Rightarrow> None
      | Some (Inl e) \<Rightarrow> Some (Inl e)
      | Some (Inr c) \<Rightarrow>
          (case (stdout_promise w, stderr_promise w) of
             (Some out, Some err) \<Rightarrow> Some (Inr (c, out, err))
           | _ \<Rightarrow> None))"

text \<open>
  \<^verbatim>\<open>await Promise.all(...)\<close>: events are delivered until the promise settles, and the
  call goes on before the next event. When the process emits nothing more and the promise
  is pending, the call never goes on.
\<close>

fun await_all ::
  "env \<Rightarrow> event list \<Rightarrow> waiting
     \<Rightarrow> waiting \<times> (string + int option \<times> buffer \<times> string) option" where
  "await_all env [] w = (w, promise_all w)"
| "await_all env (ev # evs) w =
     (case promise_all w of
        Some r \<Rightarrow> (w, Some r)
      | None \<Rightarrow> await_all env evs (emit env ev w))"

text \<open>\<^verbatim>\<open>ee.removeListener(name, fn)\<close> takes the instance registered last off the emitter.\<close>

fun remove_first :: "('a \<Rightarrow> bool) \<Rightarrow> 'a list \<Rightarrow> 'a list" where
  "remove_first P [] = []"
| "remove_first P (x # xs) = (if P x then xs else x # remove_first P xs)"

definition removeListener :: "emitter \<times> string \<times> callback \<Rightarrow> listener list \<Rightarrow> listener list" where
  "removeListener d ls =
     rev (remove_first (\<lambda>l. (on_emitter l, on_name l, fn l) = d) (rev ls))"

definition dispose :: "waiting \<Rightarrow> waiting" where
  "dispose w = w\<lparr>listeners := fold removeListener (disposables w) (listeners w)\<rparr>"

subsection \<open>The encoding of stdout\<close>

text \<open>
  Lines 145 to 172 of svn.ts: the encoding that decodes stdout, and the state after the
  diagnostic line or the addition to the detector's global. \<open>encoding\<close> is the local of
  that name, \<^verbatim>\<open>options.encoding || "utf8"\<close> on entry. The confidence is compared with
  0.8 as a real number.
\<close>

definition exec_encoding :: "env \<Rightarrow> svn \<Rightarrow> string list \<Rightarrow> string \<Rightarrow> buffer \<Rightarrow> string \<times> svn" where
  "exec_encoding env s args encoding out =
     (if ''--xml'' \<in> set args then (''utf8'', s)
      else
        (case default_encoding env of
           Some defaultEncoding \<Rightarrow>
             if defaultEncoding \<noteq> [] then
               (if \<not> encodingExists env defaultEncoding then
                  (encoding,
                   logOutput (''svn.default.encoding: Invalid Parameter: '' @ [CHR 0x27]
                              @ defaultEncoding @ [CHR 0x27] @ ''.'' @ [CHR 0x0A]) s)
                else if \<not> isUtf8 env out then (defaultEncoding, s)
                else (encoding, s))
             else
               (let s' = s\<lparr>ratio_bumps := Suc (ratio_bumps s)\<rparr>;
                    encodingGuess = detect env (ratio_bumps s') out
                in if confidence encodingGuess > 0.8
                      \<and> encodingExists env (guess_encoding encodingGuess)
                   then (guess_encoding encodingGuess, s') else (encoding, s'))
         | None \<Rightarrow>
             (let s' = s\<lparr>ratio_bumps := Suc (ratio_bumps s)\<rparr>;
                  encodingGuess = detect env (ratio_bumps s') out
              in if confidence encodingGuess > 0.8
                    \<and> encodingExists env (guess_encoding encodingGuess)
                 then (guess_encoding encodingGuess, s') else (encoding, s'))))"

subsection \<open>Results and errors\<close>

text \<open>
  \<^verbatim>\<open>IExecutionResult\<close>, and the data of an \<^verbatim>\<open>SvnError\<close>, which has the three
  fields of a result and four more.
\<close>

record execution_result =
  exitCode :: "int option"
  stdout :: string
  stderr :: string

record svn_error = execution_result +
  message :: string
  stderrFormated :: string
  svnErrorCode :: "string option"
  svnCommand :: "string option"

text \<open>
  The promise that \<^verbatim>\<open>exec\<close> returns: pending for ever, rejected with what the process
  emitted as its \<^verbatim>\<open>error\<close> event, rejected with an \<^verbatim>\<open>SvnError\<close>, or fulfilled.
\<close>

datatype exec_failure = ProcessError string | SvnError svn_error

datatype exec_promise = Pending | Rejected exec_failure | Fulfilled execution_result

text \<open>
  What a call leaves behind: the state, the arguments and options given to
  \<^verbatim>\<open>cp.spawn\<close>, the listeners still registered on the process and its streams when the
  promise settles (or when the process falls silent), and the promise.
\<close>

record exec_run =
  svn_after :: svn
  spawn_args :: "string list"
  spawn_options :: cp_options
  listeners_left :: "listener list"
  promise :: exec_promise

definition push_credential :: "string \<Rightarrow> string option \<Rightarrow> string list \<Rightarrow> string list" where
  "push_credential flag v args =
     (case v of
        Some x \<Rightarrow> if x \<noteq> [] then args @ [flag, x] else args
      | None \<Rightarrow> args)"

subsection \<open>exec\<close>

text \<open>
  Lines 80 to 90: the working directory is remembered, and the invocation is echoed unless
  \<^verbatim>\<open>options.log\<close> is \<^verbatim>\<open>false\<close>.
\<close>

definition exec_echo :: "svn \<Rightarrow> string \<Rightarrow> string list \<Rightarrow> cp_options \<Rightarrow> svn" where
  "exec_echo s cwd args options =
     (let s1 = (if cwd \<noteq> [] then s\<lparr>lastCwd := cwd\<rparr> else s)
      in if opt_log options \<noteq> Some False
         then logOutput (echo_line (lastCwd s1) args) s1 else s1)"

text \<open>Lines 92 to 97: the credentials are pushed onto the caller's array.\<close>

definition exec_args :: "string list \<Rightarrow> cp_options \<Rightarrow> string list" where
  "exec_args args options =
     push_credential ''--password'' (opt_password options)
       (push_credential ''--username'' (opt_username options) args)"

text \<open>Lines 99 and 100: \<^verbatim>\<open>options.encoding || "utf8"\<close>, and the options that reach \<^verbatim>\<open>cp.spawn\<close>.\<close>

definition exec_hint :: "cp_options \<Rightarrow> string" where
  "exec_hint options =
     (case opt_encoding options of
        Some e \<Rightarrow> if e \<noteq> [] then e else ''utf8''
      | None \<Rightarrow> ''utf8'')"

definition exec_spawn_options :: "string \<Rightarrow> cp_options \<Rightarrow> cp_options" where
  "exec_spawn_options cwd options =
     (if cwd \<noteq> [] then options\<lparr>opt_cwd := Some cwd\<rparr> else options)\<lparr>opt_encoding := None\<rparr>"

text \<open>
  Lines 145 to 194, for the exit code, the bytes of stdout and the text of stderr that the
  wait delivered: \<open>s\<close> is the state after the echo and \<open>args\<close> the array after the
  pushes. \<^verbatim>\<open>if (exitCode)\<close> holds for a number other than 0, and neither for 0 nor
  for \<^verbatim>\<open>null\<close>.
\<close>

definition exec_finish ::
  "env \<Rightarrow> svn \<Rightarrow> string list \<Rightarrow> cp_options \<Rightarrow> int option \<Rightarrow> buffer \<Rightarrow> string
     \<Rightarrow> svn \<times> exec_promise" where
  "exec_finish env s args options code out err =
     (let (encoding, s3) = exec_encoding env s args (exec_hint options) out;
          decodedStdout = decode env out encoding;
          s4 = (if opt_log options \<noteq> Some False \<and> err \<noteq> []
                then logOutput (err @ [CHR 0x0A]) s3 else s3)
      in (s4,
          if code \<noteq> None \<and> code \<noteq> Some 0 then
            Rejected (SvnError
              \<lparr>exitCode = code, stdout = decodedStdout, stderr = err,
               message = ''Failed to execute svn'',
               stderrFormated = stderr_formated err,
               svnErrorCode = getSvnErrorCode err,
               svnCommand = (case args of [] \<Rightarrow> None | a # rest \<Rightarrow> Some a)\<rparr>)
          else Fulfilled \<lparr>exitCode = code, stdout = decodedStdout, stderr = err\<rparr>))"

text \<open>
  The whole call. When the wait ends with the \<^verbatim>\<open>error\<close> event, the \<^verbatim>\<open>await\<close>
  throws and nothing behind it runs; otherwise \<^verbatim>\<open>dispose(disposables)\<close> runs first.
\<close>

definition exec :: "env \<Rightarrow> svn \<Rightarrow> string \<Rightarrow> string list \<Rightarrow> cp_options \<Rightarrow> event list \<Rightarrow> exec_run" where
  "exec env s cwd args options events =
     (let s2 = exec_echo s cwd args options;
          args2 = exec_args args options;
          options2 = exec_spawn_options cwd options;
          (w, settled) = await_all env events registered
      in case settled of
           None \<Rightarrow>
             \<lparr>svn_after = s2, spawn_args = args2, spawn_options = options2,
              listeners_left = listeners w, promise = Pending\<rparr>
         | Some (Inl e) \<Rightarrow>
             \<lparr>svn_after = s2, spawn_args = args2, spawn_options = options2,
              listeners_left = listeners w, promise = Rejected (ProcessError e)\<rparr>
         | Some (Inr (code, out, err)) \<Rightarrow>
             (let w' = dispose w;
                  (s4, p) = exec_finish env s2 args2 options code out err
              in \<lparr>svn_after = s4, spawn_args = args2, spawn_options = options2,
                  listeners_left = listeners w', promise = p\<rparr>))"

subsection \<open>A call seen from the events of the process\<close>

text \<open>
  What the events of a process say, without listeners: how the process ended (the first
  \<^verbatim>\<open>error\<close> or \<^verbatim>\<open>exit\<close> event), and the bytes that a stream delivered before
  it closed (\<open>None\<close> when it never closes).
\<close>

fun process_outcome :: "event list \<Rightarrow> (string + int option) option" where
  "process_outcome [] = None"
| "process_outcome (ProcError e # evs) = Some (Inl e)"
| "process_outcome (ProcExit c # evs) = Some (Inr c)"
| "process_outcome (ev # evs) = process_outcome evs"

fun stdout_bytes :: "event list \<Rightarrow> buffer option" where
  "stdout_bytes [] = None"
| "stdout_bytes (StdoutClose # evs) = Some []"
| "stdout_bytes (StdoutData b # evs) = map_option (\<lambda>rest. b @ rest) (stdout_bytes evs)"
| "stdout_bytes (ev # evs) = stdout_bytes evs"

fun stderr_bytes :: "event list \<Rightarrow> buffer option" where
  "stderr_bytes [] = None"
| "stderr_bytes (StderrClose # evs) = Some []"
| "stderr_bytes (StderrData b # evs) = map_option (\<lambda>rest. b @ rest) (stderr_bytes evs)"
| "stderr_bytes (ev # evs) = stderr_bytes evs"

text \<open>
  How the three outcomes combine: a launch error wins as soon as it is the way the process
  ended; an exit code counts once both streams have closed.
\<close>

definition combine ::
  "(string + int option) option \<Rightarrow> buffer option \<Rightarrow> string option
     \<Rightarrow> (string + int option \<times> buffer \<times> string) option" where
  "combine x out err =
     (case x of
        None \<Rightarrow> None
      | Some (Inl e) \<Rightarrow> Some (Inl e)
      | Some (Inr c) \<Rightarrow>
          (case (out, err) of
             (Some b, Some t) \<Rightarrow> Some (Inr (c, b, t))
           | _ \<Rightarrow> None))"

definition awaited ::
  "env \<Rightarrow> event list \<Rightarrow> (string + int option \<times> buffer \<times> string) option" where
  "awaited env events =
     combine (process_outcome events) (stdout_bytes events)
       (map_option (bufferToString env) (stderr_bytes events))"

text \<open>
  The listeners that are registered while a call waits, by what is still pending: the
  exit code, the close of stdout, the close of stderr.
\<close>

definition live_listeners :: "bool \<Rightarrow> bool \<Rightarrow> bool \<Rightarrow> listener list" where
  "live_listeners exit_pending stdout_pending stderr_pending =
     [\<lparr>on_emitter = Process, on_name = ''error'', is_once = True, fn = Reject\<rparr>]
     @ (if exit_pending
        then [\<lparr>on_emitter = Process, on_name = ''exit'', is_once = True, fn = ResolveExit\<rparr>]
        else [])
     @ [\<lparr>on_emitter = ProcessStdout, on_name = ''data'', is_once = False, fn = PushStdout\<rparr>]
     @ (if stdout_pending
        then [\<lparr>on_emitter = ProcessStdout, on_name = ''close'', is_once = True, fn = ResolveStdout\<rparr>]
        else [])
     @ [\<lparr>on_emitter = ProcessStderr, on_name = ''data'', is_once = False, fn = PushStderr\<rparr>]
     @ (if stderr_pending
        then [\<lparr>on_emitter = ProcessStderr, on_name = ''close'', is_once = True, fn = ResolveStderr\<rparr>]
        else [])"

text \<open>
  The states of a waiting call, up to the event that settles it: the listener for
  \<^verbatim>\<open>exit\<close> is registered until the process exits, the one for \<^verbatim>\<open>error\<close> until
  the process emits an error, which rejects the first promise unless the process has
  exited before. (An \<^verbatim>\<open>error\<close> event that finds no listener, the second one behind an
  exit, makes Node throw; \<open>emit\<close> lets it pass.)
\<close>

definition waiting_inv :: "waiting \<Rightarrow> bool" where
  "waiting_inv w =
     (disposables w = disposables registered
      \<and> (listeners w = live_listeners (\<forall>c. exit_promise w \<noteq> Some (Inr c))
                          (stdout_promise w = None) (stderr_promise w = None)
           \<and> (\<forall>e. exit_promise w \<noteq> Some (Inl e))
         \<or> listeners w = tl (live_listeners (\<forall>c. exit_promise w \<noteq> Some (Inr c))
                               (stdout_promise w = None) (stderr_promise w = None))
           \<and> exit_promise w \<noteq> None))"

subsection \<open>Observations on a call\<close>

text \<open>
  The first line that a call adds to the diagnostic output (the invocation echo, when
  logging is enabled), and the third rule of the specification's encoding resolver:
  statistical detection, whose guess counts above a confidence of 0.8 and is UTF-8
  otherwise.
\<close>

definition first_logged :: "svn \<Rightarrow> exec_run \<Rightarrow> string option" where
  "first_logged s run =
     (case drop (length (onOutput s)) (onOutput (svn_after run)) of
        [] \<Rightarrow> None
      | line # rest \<Rightarrow> Some line)"


text \<open>The text of a result or of an \<^verbatim>\<open>SvnError\<close> that was decoded from stdout.\<close>

fun decoded_stdout :: "exec_promise \<Rightarrow> string option" where
  "decoded_stdout (Fulfilled r) = Some (stdout r)"
| "decoded_stdout (Rejected (SvnError e)) = Some (stdout e)"
| "decoded_stdout (Rejected (ProcessError e)) = None"
| "decoded_stdout Pending = None"

section \<open>Commands (commands.ts, class SvnCommands)\<close>

subsection \<open>Resources\<close>

text \<open>
  A \<^verbatim>\<open>Uri\<close> of the editor, with the parts that this code reads. The statuses are
  those that the code of this file names; any other member of \<^verbatim>\<open>Status\<close> is
  \<open>OtherStatus\<close>.
\<close>

record uri =
  scheme :: string
  fsPath :: string
  query :: string

datatype status =
    ADDED
  | CONFLICTED
  | DELETED
  | IGNORED
  | MISSING
  | MODIFIED
  | REPLACED
  | UNVERSIONED
  | OtherStatus string

text \<open>\<^verbatim>\<open>Resource\<close>: \<open>res_type\<close> is its \<^verbatim>\<open>type\<close>.\<close>

record resource =
  resourceUri :: uri
  res_type :: status
  renameResourceUri :: "uri option"

text \<open>
  A \<^verbatim>\<open>SourceControlResourceState\<close> is a \<^verbatim>\<open>Resource\<close> or a state of another
  class; each has a \<^verbatim>\<open>resourceUri\<close>.
\<close>

datatype resource_state = Resource resource | OtherState uri

fun state_uri :: "resource_state \<Rightarrow> uri" where
  "state_uri (Resource r) = resourceUri r"
| "state_uri (OtherState u) = u"

text \<open>
  A command is called with whatever the editor hands over: a resource state, or a value
  whose \<^verbatim>\<open>resourceUri\<close> is no \<^verbatim>\<open>Uri\<close>.
\<close>

datatype command_arg = State resource_state | NotAState

subsection \<open>The two sides of a diff and its title\<close>

text \<open>
  \<^verbatim>\<open>toSvnUri(uri, SvnUriAction.SHOW, {ref: against})\<close> is a function of another
  file, and so are \<^verbatim>\<open>path.basename\<close>, \<^verbatim>\<open>path.dirname\<close> and
  \<^verbatim>\<open>path.relative\<close>: they are parameters. \<open>against\<close> is the empty string when the
  caller gives none.
\<close>

datatype svn_uri_action = SHOW

record uri_lib =
  toSvnUri :: "uri \<Rightarrow> svn_uri_action \<Rightarrow> string \<Rightarrow> uri"
  basename :: "string \<Rightarrow> string"
  dirname :: "string \<Rightarrow> string"
  relative :: "string \<Rightarrow> string \<Rightarrow> string"

text \<open>\<^verbatim>\<open>resource.type === Status.ADDED && resource.renameResourceUri\<close>.\<close>

definition added_with_rename :: "resource \<Rightarrow> uri option" where
  "added_with_rename r = (if res_type r = ADDED then renameResourceUri r else None)"

definition getLeftResource :: "uri_lib \<Rightarrow> resource \<Rightarrow> string \<Rightarrow> uri option" where
  "getLeftResource lib r against =
     (case added_with_rename r of
        Some renamed \<Rightarrow> Some (toSvnUri lib renamed SHOW against)
      | None \<Rightarrow>
          (case res_type r of
             CONFLICTED \<Rightarrow> Some (toSvnUri lib (resourceUri r) SHOW against)
           | MODIFIED \<Rightarrow> Some (toSvnUri lib (resourceUri r) SHOW against)
           | REPLACED \<Rightarrow> Some (toSvnUri lib (resourceUri r) SHOW against)
           | _ \<Rightarrow> None))"

definition getRightResource :: "uri_lib \<Rightarrow> resource \<Rightarrow> string \<Rightarrow> uri option" where
  "getRightResource lib r against =
     (case res_type r of
        ADDED \<Rightarrow> Some (resourceUri r)
      | CONFLICTED \<Rightarrow> Some (resourceUri r)
      | IGNORED \<Rightarrow> Some (resourceUri r)
      | MODIFIED \<Rightarrow> Some (resourceUri r)
      | UNVERSIONED \<Rightarrow> Some (resourceUri r)
      | REPLACED \<Rightarrow> Some (resourceUri r)
      | DELETED \<Rightarrow> Some (toSvnUri lib (resourceUri r) SHOW against)
      | MISSING \<Rightarrow> Some (toSvnUri lib (resourceUri r) SHOW against)
      | OtherStatus x \<Rightarrow> None)"

definition getTitle :: "uri_lib \<Rightarrow> resource \<Rightarrow> string \<Rightarrow> string" where
  "getTitle lib r against =
     (case added_with_rename r of
        Some renamed \<Rightarrow>
          (let base = basename lib (fsPath renamed);
               newname = relative lib (dirname lib (fsPath renamed)) (fsPath (resourceUri r))
           in if against \<noteq> [] then base @ '' -> '' @ newname @ '' ('' @ against @ '')''
              else base @ '' -> '' @ newname)
      | None \<Rightarrow>
          (let base = basename lib (fsPath (resourceUri r))
           in if against \<noteq> [] then base @ '' ('' @ against @ '')'' else []))"

subsection \<open>The paths of a commit\<close>

text \<open>
  The rename sources that both commit commands append: one for every \<^verbatim>\<open>Resource\<close>
  whose type is \<^verbatim>\<open>ADDED\<close> and that has a \<^verbatim>\<open>renameResourceUri\<close>, in the order of
  the states.
\<close>

fun rename_sources :: "resource_state list \<Rightarrow> uri list" where
  "rename_sources [] = []"
| "rename_sources (Resource r # states) =
     (case added_with_rename r of
        Some renamed \<Rightarrow> renamed # rename_sources states
      | None \<Rightarrow> rename_sources states)"
| "rename_sources (OtherState u # states) = rename_sources states"

text \<open>
  \<^verbatim>\<open>commitWithMessage\<close>: \<open>msg\<close> is the value of the input box and \<open>choice\<close> the
  resource states of the changelist the user picked, if any. The result is the call
  \<^verbatim>\<open>repository.commitFiles(message, filePaths)\<close>, or \<open>None\<close> when the command returns
  before it.
\<close>

definition commitWithMessage :: "string \<Rightarrow> resource_state list option \<Rightarrow> (string \<times> string list) option" where
  "commitWithMessage msg choice =
     (if msg = [] then None
      else
        (case choice of
           None \<Rightarrow> None
         | Some states \<Rightarrow>
             (let filePaths = map (\<lambda>st. fsPath (state_uri st)) states
              in Some (msg, filePaths @ map fsPath (rename_sources states)))))"

text \<open>
  \<^verbatim>\<open>commit\<close>, up to its call of \<^verbatim>\<open>runByRepository\<close>: \<open>scm\<close> is what
  \<^verbatim>\<open>getSCMResource()\<close> finds for the active editor. \<open>commit_selection\<close> is the local
  \<^verbatim>\<open>selection\<close> and \<open>commit_uris\<close> the array \<^verbatim>\<open>uris\<close> handed to
  \<^verbatim>\<open>runByRepository\<close>; both are \<open>None\<close> when the command returns before.
\<close>

fun resources_of :: "command_arg list \<Rightarrow> resource list" where
  "resources_of [] = []"
| "resources_of (State (Resource r) # args) = r # resources_of args"
| "resources_of (a # args) = resources_of args"

definition commit_selection :: "command_arg list \<Rightarrow> resource option \<Rightarrow> resource list option" where
  "commit_selection resources scm =
     (if resources = [] \<or> hd resources = NotAState then
        (case scm of
           None \<Rightarrow> None
         | Some r \<Rightarrow> Some (resources_of [State (Resource r)]))
      else Some (resources_of resources))"

definition commit_uris :: "command_arg list \<Rightarrow> resource option \<Rightarrow> uri list option" where
  "commit_uris resources scm =
     (case commit_selection resources scm of
        None \<Rightarrow> None
      | Some selection \<Rightarrow>
          Some (map resourceUri selection @ rename_sources (map Resource selection)))"

subsection \<open>runByRepository\<close>

text \<open>
  \<^verbatim>\<open>this.model.getRepository\<close> is a parameter: it yields the repository that owns a
  resource, if one does. Repositories are compared with \<^verbatim>\<open>===\<close>; \<open>'r\<close> is the type
  of their identities. A group is the object \<^verbatim>\<open>{ repository, resources }\<close>. The
  second component of the accumulator collects the resources that
  \<^verbatim>\<open>console.warn\<close> reports.
\<close>

fun push_resource :: "'r \<Rightarrow> uri \<Rightarrow> ('r \<times> uri list) list \<Rightarrow> ('r \<times> uri list) list" where
  "push_resource repository res [] = [(repository, [res])]"
| "push_resource repository res ((p, rs) # groups) =
     (if p = repository then (p, rs @ [res]) # groups
      else (p, rs) # push_resource repository res groups)"

definition group_step ::
  "(uri \<Rightarrow> 'r option) \<Rightarrow> ('r \<times> uri list) list \<times> uri list \<Rightarrow> uri \<Rightarrow> ('r \<times> uri list) list \<times> uri list" where
  "group_step getRepository acc res =
     (case getRepository res of
        None \<Rightarrow> (fst acc, snd acc @ [res])
      | Some repository \<Rightarrow> (push_resource repository res (fst acc), snd acc))"

definition group_by_repository ::
  "(uri \<Rightarrow> 'r option) \<Rightarrow> uri list \<Rightarrow> ('r \<times> uri list) list \<times> uri list" where
  "group_by_repository getRepository resources =
     foldl (group_step getRepository) ([], []) resources"

text \<open>
  A promise, seen from the end: it never settles, or it is fulfilled or rejected at some
  tick of the event loop. \<^verbatim>\<open>Promise.all\<close> is rejected with the reason of the
  rejection that comes first (of two at the same tick, the one earlier in the array),
  stays pending when none is rejected and one never settles, and is fulfilled with the
  values in the order of the array once the last promise is.
\<close>

datatype ('e, 'a) settlement = NeverSettles | Fulfils nat 'a | Rejects nat 'e

fun first_rejection :: "('e, 'a) settlement list \<Rightarrow> (nat \<times> 'e) option" where
  "first_rejection [] = None"
| "first_rejection (Rejects t e # ps) =
     (case first_rejection ps of
        None \<Rightarrow> Some (t, e)
      | Some (t', e') \<Rightarrow> if t' < t then Some (t', e') else Some (t, e))"
| "first_rejection (p # ps) = first_rejection ps"

fun fulfilled_values :: "('e, 'a) settlement list \<Rightarrow> (nat \<times> 'a list) option" where
  "fulfilled_values [] = Some (0, [])"
| "fulfilled_values (Fulfils t v # ps) =
     (case fulfilled_values ps of
        None \<Rightarrow> None
      | Some (t', vs) \<Rightarrow> Some (max t t', v # vs))"
| "fulfilled_values (p # ps) = None"

definition Promise_all :: "('e, 'a) settlement list \<Rightarrow> ('e, 'a list) settlement" where
  "Promise_all ps =
     (case first_rejection ps of
        Some (t, e) \<Rightarrow> Rejects t e
      | None \<Rightarrow>
          (case fulfilled_values ps of
             Some (t, vs) \<Rightarrow> Fulfils t vs
           | None \<Rightarrow> NeverSettles))"

text \<open>
  The argument of \<^verbatim>\<open>runByRepository\<close> is one \<^verbatim>\<open>Uri\<close> or an array of them, and
  \<open>fn\<close> is handed the same shape. \<open>f repository resources\<close> is the promise that
  \<^verbatim>\<open>fn\<close> returns for a group.
\<close>

datatype uri_arg = OneUri uri | UriArray "uri list"

definition group_promises ::
  "(uri \<Rightarrow> 'r option) \<Rightarrow> uri_arg \<Rightarrow> ('r \<Rightarrow> uri_arg \<Rightarrow> ('e, 'a) settlement) \<Rightarrow> ('e, 'a) settlement list" where
  "group_promises getRepository arg f =
     (let resources = (case arg of OneUri u \<Rightarrow> [u] | UriArray us \<Rightarrow> us);
          isSingleResource = (case arg of OneUri u \<Rightarrow> True | UriArray us \<Rightarrow> False);
          groups = fst (group_by_repository getRepository resources)
      in map (\<lambda>(repository, rs).
                f repository (if isSingleResource
                              then (case rs of r # rest \<Rightarrow> OneUri r | [] \<Rightarrow> UriArray [])
                              else UriArray rs)) groups)"

definition runByRepository ::
  "(uri \<Rightarrow> 'r option) \<Rightarrow> uri_arg \<Rightarrow> ('r \<Rightarrow> uri_arg \<Rightarrow> ('e, 'a) settlement) \<Rightarrow> ('e, 'a list) settlement" where
  "runByRepository getRepository arg f = Promise_all (group_promises getRepository arg f)"

text \<open>
  The order in which the members of a list are first seen: every member once, at the place
  of its first occurrence.
\<close>

fun first_seen :: "'a list \<Rightarrow> 'a list" where
  "first_seen [] = []"
| "first_seen (x # xs) = x # removeAll x (first_seen xs)"

section \<open>Example data\<close>

definition example_repository :: "uri \<Rightarrow> nat option" where
  "example_repository u =
     (if prefix ''/a/'' (fsPath u) then Some 1
      else if prefix ''/b/'' (fsPath u) then Some 2 else None)"

definition example_env :: env where
  "example_env =
     \<lparr>encodingExists = (\<lambda>e. e = ''utf8'' \<or> e = ''windows-1252''),
      isUtf8 = (\<lambda>b. False),
      detect = (\<lambda>n b. \<lparr>confidence = 0.95, guess_encoding = ''windows-1252''\<rparr>),
      decode = (\<lambda>b e. b),
      bufferToString = (\<lambda>b. b),
      default_encoding = Some ''no-such-charset''\<rparr>"

definition example_svn :: svn where
  "example_svn =
     \<lparr>svnPath = ''svn'', version = ''1.9.7'', lastCwd = [], onOutput = [], ratio_bumps = 0\<rparr>"

definition example_options :: cp_options where
  "example_options =
     \<lparr>opt_cwd = None, opt_log = None, opt_username = None, opt_password = None,
      opt_encoding = None\<rparr>"

definition file_uri :: "string \<Rightarrow> uri" where
  "file_uri p = \<lparr>scheme = ''file'', fsPath = p, query = []\<rparr>"

definition example_lib :: uri_lib where
  "example_lib =
     \<lparr>toSvnUri = (\<lambda>u a r. u\<lparr>scheme := ''svn'', query := r\<rparr>),
      basename = last_segment, dirname = (\<lambda>p. p), relative = (\<lambda>a b. b)\<rparr>"

definition deleted_resource :: resource where
  "deleted_resource =
     \<lparr>resourceUri = file_uri ''/wc/gone.txt'', res_type = DELETED, renameResourceUri = None\<rparr>"

definition renamed_resource :: resource where
  "renamed_resource =
     \<lparr>resourceUri = file_uri ''/wc/new.txt'', res_type = ADDED,
      renameResourceUri = Some (file_uri ''/wc/old.txt'')\<rparr>"

section \<open>Properties of the sanitised stderr\<close>




























section \<open>Properties of the error classifier\<close>

lemma test_literal_sublist: "test_literal pat s = sublist pat s"
  by (induction s) (auto simp: sublist_Cons_right)

lemma scan_codes_first:
  assumes "i < length tbl"
    and "sublist (''svn: '' @ snd (tbl ! i)) t"
    and "\<forall>j<i. \<not> sublist (''svn: '' @ snd (tbl ! j)) t"
  shows "scan_codes tbl t = Some (snd (tbl ! i))"
  using assms
proof (induction tbl t arbitrary: i rule: scan_codes.induct)
  case (1 t)
  then show ?case by simp
next
  case (2 name code rest t)
  show ?case
  proof (cases i)
    case 0
    with 2 show ?thesis by (simp add: test_literal_sublist)
  next
    case (Suc k)
    from 2(4) Suc have no0: "\<not> sublist (''svn: '' @ code) t" by fastforce
    have "\<forall>j<k. \<not> sublist (''svn: '' @ snd (rest ! j)) t"
      using 2(4) Suc by fastforce
    with 2 Suc no0 show ?thesis by (simp add: test_literal_sublist)
  qed
qed

lemma scan_codes_none:
  "(\<forall>e \<in> set tbl. \<not> sublist (''svn: '' @ snd e) t) \<Longrightarrow> scan_codes tbl t = None"
  by (induction tbl t rule: scan_codes.induct) (auto simp: test_literal_sublist)

lemma AuthorizationFailed_code: "map_of svnErrorCodes ''AuthorizationFailed'' = Some ''E170001''"
  by (simp add: svnErrorCodes_def)

text \<open>
  C5. For every stderr text the classifier returns the code bound to the first table
  entry, in insertion order, whose literal token \<open>svn: <code>\<close> occurs in the text.
  When no token occurs and the text contains the credential-exhaustion phrase it returns
  the code bound to AuthorizationFailed (the phrase is only consulted after the table
  scan found nothing); when neither a token nor the phrase occurs it returns nothing.
\<close>

theorem getSvnErrorCode_classifies:
  "(\<forall>i. i < length svnErrorCodes
        \<and> sublist (''svn: '' @ snd (svnErrorCodes ! i)) t
        \<and> (\<forall>j<i. \<not> sublist (''svn: '' @ snd (svnErrorCodes ! j)) t)
      \<longrightarrow> getSvnErrorCode t = Some (snd (svnErrorCodes ! i)))
   \<and> ((\<forall>e \<in> set svnErrorCodes. \<not> sublist (''svn: '' @ snd e) t)
        \<and> sublist credentials_phrase t
      \<longrightarrow> getSvnErrorCode t = map_of svnErrorCodes ''AuthorizationFailed''
          \<and> getSvnErrorCode t = Some ''E170001'')
   \<and> ((\<forall>e \<in> set svnErrorCodes. \<not> sublist (''svn: '' @ snd e) t)
        \<and> \<not> sublist credentials_phrase t
      \<longrightarrow> getSvnErrorCode t = None)"
proof (intro conjI allI impI)
  fix i
  assume "i < length svnErrorCodes
        \<and> sublist (''svn: '' @ snd (svnErrorCodes ! i)) t
        \<and> (\<forall>j<i. \<not> sublist (''svn: '' @ snd (svnErrorCodes ! j)) t)"
  then have "scan_codes svnErrorCodes t = Some (snd (svnErrorCodes ! i))"
    by (intro scan_codes_first) auto
  then show "getSvnErrorCode t = Some (snd (svnErrorCodes ! i))"
    by (simp add: getSvnErrorCode_def)
next
  assume a: "(\<forall>e \<in> set svnErrorCodes. \<not> sublist (''svn: '' @ snd e) t)
        \<and> sublist credentials_phrase t"
  then have "scan_codes svnErrorCodes t = None" by (intro scan_codes_none) auto
  with a show "getSvnErrorCode t = map_of svnErrorCodes ''AuthorizationFailed''"
    by (simp add: getSvnErrorCode_def test_literal_sublist)
  then show "getSvnErrorCode t = Some ''E170001''"
    by (simp add: AuthorizationFailed_code)
next
  assume a: "(\<forall>e \<in> set svnErrorCodes. \<not> sublist (''svn: '' @ snd e) t)
        \<and> \<not> sublist credentials_phrase t"
  then have "scan_codes svnErrorCodes t = None" by (intro scan_codes_none) auto
  with a show "getSvnErrorCode t = None"
    by (simp add: getSvnErrorCode_def test_literal_sublist)
qed

text \<open>The classifier on three concrete texts: table order beats text order.\<close>

theorem getSvnErrorCode_classifies_witness:
  "getSvnErrorCode ''a svn: E155036 svn: E155007'' = Some ''E155007''
   \<and> getSvnErrorCode credentials_phrase = Some ''E170001''
   \<and> getSvnErrorCode ''svn: warning'' = None"
proof -
  let ?s = "''a svn: E155036 svn: E155007''"
  have h1: "(2::nat) < length svnErrorCodes
        \<and> sublist (''svn: '' @ snd (svnErrorCodes ! 2)) ?s
        \<and> (\<forall>j<2. \<not> sublist (''svn: '' @ snd (svnErrorCodes ! j)) ?s)"
    by (simp add: svnErrorCodes_def less_2_cases_iff test_literal_sublist [symmetric])
  have h2: "(\<forall>e \<in> set svnErrorCodes. \<not> sublist (''svn: '' @ snd e) credentials_phrase)
        \<and> sublist credentials_phrase credentials_phrase"
    by (simp add: svnErrorCodes_def credentials_phrase_def test_literal_sublist [symmetric])
  have h3: "(\<forall>e \<in> set svnErrorCodes. \<not> sublist (''svn: '' @ snd e) ''svn: warning'')
        \<and> \<not> sublist credentials_phrase ''svn: warning''"
    by (simp add: svnErrorCodes_def credentials_phrase_def test_literal_sublist [symmetric])
  from getSvnErrorCode_classifies [of ?s] h1
  have "getSvnErrorCode ?s = Some (snd (svnErrorCodes ! 2))" by blast
  moreover have "snd (svnErrorCodes ! 2) = ''E155007''" by (simp add: svnErrorCodes_def)
  moreover from getSvnErrorCode_classifies [of credentials_phrase] h2
  have "getSvnErrorCode credentials_phrase = Some ''E170001''" by blast
  moreover from getSvnErrorCode_classifies [of "''svn: warning''"] h3
  have "getSvnErrorCode ''svn: warning'' = None" by blast
  ultimately show ?thesis by simp
qed

section \<open>Properties of the diff endpoints\<close>

text \<open>
  C9 as stated fails: for a deleted resource compared against BASE the left side is absent,
  not a reference built by \<open>toSvnUri\<close>.
\<close>

theorem deleted_left_side_counterexample:
  "getLeftResource example_lib deleted_resource ''BASE'' = None
   \<and> getLeftResource example_lib deleted_resource ''BASE''
       \<noteq> Some (toSvnUri example_lib (resourceUri deleted_resource) SHOW ''BASE'')"
  by (simp add: getLeftResource_def added_with_rename_def deleted_resource_def)

text \<open>
  C9, amended. For a resource with status deleted compared against BASE the left side is
  absent, the right side is the reference that \<open>toSvnUri\<close> builds for the resource with
  action SHOW and ref BASE, and the title is the base name of the resource followed by
  \<open> (BASE)\<close>, so it includes \<open>(BASE)\<close>.
\<close>

theorem deleted_against_BASE:
  "res_type r = DELETED \<Longrightarrow>
     getLeftResource lib r ''BASE'' = None
   \<and> getRightResource lib r ''BASE'' = Some (toSvnUri lib (resourceUri r) SHOW ''BASE'')
   \<and> getTitle lib r ''BASE'' = basename lib (fsPath (resourceUri r)) @ '' (BASE)''
   \<and> sublist ''(BASE)'' (getTitle lib r ''BASE'')"
proof -
  assume d: "res_type r = DELETED"
  then have t: "getTitle lib r ''BASE'' = basename lib (fsPath (resourceUri r)) @ '' (BASE)''"
    by (simp add: getTitle_def added_with_rename_def)
  have "sublist ''(BASE)'' ((basename lib (fsPath (resourceUri r)) @ '' '') @ ''(BASE)'' @ [])"
    by (rule sublist_appendI)
  with t have "sublist ''(BASE)'' (getTitle lib r ''BASE'')" by simp
  with d t show ?thesis
    by (simp add: getLeftResource_def getRightResource_def added_with_rename_def)
qed

theorem deleted_against_BASE_witness:
  "getLeftResource example_lib deleted_resource ''BASE'' = None
   \<and> getRightResource example_lib deleted_resource ''BASE''
       = Some \<lparr>scheme = ''svn'', fsPath = ''/wc/gone.txt'', query = ''BASE''\<rparr>
   \<and> getTitle example_lib deleted_resource ''BASE'' = ''gone.txt (BASE)''"
proof -
  have d: "res_type deleted_resource = DELETED" by (simp add: deleted_resource_def)
  from deleted_against_BASE [OF d, of example_lib] show ?thesis
    by (simp add: deleted_resource_def example_lib_def file_uri_def
          last_segment_def is_separator_def)
qed

section \<open>Properties of the grouping\<close>

lemma set_first_seen: "set (first_seen xs) = set xs"
  by (induction xs) auto

lemma distinct_first_seen: "distinct (first_seen xs)"
  by (induction xs) (auto simp: distinct_removeAll)

lemma first_seen_snoc:
  "first_seen (xs @ [x]) = (if x \<in> set xs then first_seen xs else first_seen xs @ [x])"
  by (induction xs) (auto simp: set_first_seen)

lemma map_filter_snoc:
  "List.map_filter f (xs @ [x]) =
     (case f x of None \<Rightarrow> List.map_filter f xs | Some y \<Rightarrow> List.map_filter f xs @ [y])"
  by (simp add: List.map_filter_def split: option.splits)

lemma set_map_filter: "set (List.map_filter f xs) = {y. \<exists>x \<in> set xs. f x = Some y}"
  by (induction xs) (auto simp: map_filter_simps split: option.splits)

lemma keys_push_resource:
  "map fst (push_resource r u G) = (if r \<in> fst ` set G then map fst G else map fst G @ [r])"
proof (induction G)
  case Nil
  show ?case by simp
next
  case (Cons g G)
  obtain q qs where g: "g = (q, qs)" by (cases g)
  show ?case
  proof (cases "q = r")
    case True
    with g show ?thesis by simp
  next
    case False
    with g Cons show ?thesis by (cases "r \<in> fst ` set G") auto
  qed
qed

lemma mset_push_resource:
  "mset (concat (map snd (push_resource r u G))) = mset (concat (map snd G)) + {#u#}"
  by (induction G) auto

lemma push_resource_member:
  "distinct (map fst G) \<Longrightarrow>
   (p, rs) \<in> set (push_resource r u G) \<longleftrightarrow>
     (p = r \<and> (\<exists>rs'. (r, rs') \<in> set G \<and> rs = rs' @ [u]))
     \<or> (p = r \<and> r \<notin> fst ` set G \<and> rs = [u])
     \<or> (p \<noteq> r \<and> (p, rs) \<in> set G)"
proof (induction G)
  case Nil
  then show ?case by auto
next
  case (Cons g G)
  obtain q qs where g: "g = (q, qs)" by (cases g)
  show ?case
  proof (cases "q = r")
    case True
    with Cons.prems g have "r \<notin> fst ` set G" by auto
    then have "\<And>x. (r, x) \<notin> set G" by (auto simp: image_iff)
    with True g show ?thesis by auto
  next
    case False
    with Cons g show ?thesis by auto
  qed
qed

lemma group_by_repository_snoc:
  "group_by_repository getRepository (paths @ [u]) =
     group_step getRepository (group_by_repository getRepository paths) u"
  by (simp add: group_by_repository_def)

lemma group_by_repository_invariant:
  "map fst (fst (group_by_repository getRepository paths))
       = first_seen (List.map_filter getRepository paths)
   \<and> (\<forall>(r, rs) \<in> set (fst (group_by_repository getRepository paths)).
         rs = filter (\<lambda>u. getRepository u = Some r) paths)
   \<and> snd (group_by_repository getRepository paths)
       = filter (\<lambda>u. getRepository u = None) paths
   \<and> mset (concat (map snd (fst (group_by_repository getRepository paths))))
       = mset (filter (\<lambda>u. getRepository u \<noteq> None) paths)"
proof (induction paths rule: rev_induct)
  case Nil
  show ?case by (simp add: group_by_repository_def List.map_filter_def)
next
  case (snoc u paths)
  let ?acc = "group_by_repository getRepository paths"
  let ?G = "fst ?acc"
  from snoc have keys: "map fst ?G = first_seen (List.map_filter getRepository paths)"
    and mem: "\<forall>(r, rs) \<in> set ?G. rs = filter (\<lambda>u. getRepository u = Some r) paths"
    and warned: "snd ?acc = filter (\<lambda>u. getRepository u = None) paths"
    and ms: "mset (concat (map snd ?G)) = mset (filter (\<lambda>u. getRepository u \<noteq> None) paths)"
    by auto
  have dist: "distinct (map fst ?G)" by (simp add: keys distinct_first_seen)
  show ?case
  proof (cases "getRepository u")
    case None
    with keys mem warned ms show ?thesis
      by (auto simp: group_by_repository_snoc group_step_def map_filter_snoc)
  next
    case (Some r)
    have step: "group_by_repository getRepository (paths @ [u]) = (push_resource r u ?G, snd ?acc)"
      by (simp add: group_by_repository_snoc group_step_def Some)
    have "set (map fst ?G) = set (first_seen (List.map_filter getRepository paths))"
      using keys by simp
    then have keyset: "fst ` set ?G = set (List.map_filter getRepository paths)"
      by (simp add: set_first_seen)
    then have fstset: "fst ` set ?G = {y. \<exists>x \<in> set paths. getRepository x = Some y}"
      by (simp add: set_map_filter)
    have a: "map fst (push_resource r u ?G)
               = first_seen (List.map_filter getRepository (paths @ [u]))"
      using keys Some
      by (simp add: keys_push_resource map_filter_snoc first_seen_snoc keyset)
    have b: "\<forall>(p, rs) \<in> set (push_resource r u ?G).
               rs = filter (\<lambda>v. getRepository v = Some p) (paths @ [u])"
    proof (clarify)
      fix p rs assume "(p, rs) \<in> set (push_resource r u ?G)"
      then consider
          (upd) rs' where "p = r" "(r, rs') \<in> set ?G" "rs = rs' @ [u]"
        | (new) "p = r" "r \<notin> fst ` set ?G" "rs = [u]"
        | (old) "p \<noteq> r" "(p, rs) \<in> set ?G"
        using push_resource_member [OF dist] by blast
      then show "rs = filter (\<lambda>v. getRepository v = Some p) (paths @ [u])"
      proof cases
        case upd
        with mem have "rs' = filter (\<lambda>v. getRepository v = Some r) paths" by auto
        with upd Some show ?thesis by simp
      next
        case new
        then have "filter (\<lambda>v. getRepository v = Some r) paths = []"
          by (auto simp: fstset filter_empty_conv)
        with new Some show ?thesis by simp
      next
        case old
        with mem have "rs = filter (\<lambda>v. getRepository v = Some p) paths" by auto
        with old Some show ?thesis by simp
      qed
    qed
    have c: "mset (concat (map snd (push_resource r u ?G)))
               = mset (filter (\<lambda>u. getRepository u \<noteq> None) (paths @ [u]))"
      using ms Some by (simp add: mset_push_resource)
    from a b c warned Some show ?thesis by (simp add: step)
  qed
qed


text \<open>
  C7 as stated fails: a path that the input holds twice appears twice in its group.
\<close>

theorem grouping_repeats_path_counterexample:
  "fst (group_by_repository example_repository [file_uri ''/a/x'', file_uri ''/a/x''])
     = [(1, [file_uri ''/a/x'', file_uri ''/a/x''])]
   \<and> \<not> distinct (concat (map snd
         (fst (group_by_repository example_repository [file_uri ''/a/x'', file_uri ''/a/x'']))))"
  by (simp add: group_by_repository_def group_step_def example_repository_def file_uri_def)

text \<open>
  C7, amended. For every input path list, grouping by repository is a partition of the
  occurrences of the paths. The repositories of the groups are pairwise distinct and stand
  in the order in which they are first seen. The group of a repository holds exactly the
  input paths that resolve to it, in input order and as often as the input holds them, and
  it is not empty. So every path that resolves appears in exactly one group, a path that
  does not resolve appears in no group and is reported by a warning, the groups together
  hold each resolving path as often as the input does, and no path appears twice when the
  input holds none twice. Grouping always returns.
\<close>

theorem group_by_repository_partition:
  assumes "group_by_repository getRepository paths = (groups, warned)"
  shows "map fst groups = first_seen (List.map_filter getRepository paths)
       \<and> distinct (map fst groups)
       \<and> (\<forall>(r, rs) \<in> set groups. rs = filter (\<lambda>u. getRepository u = Some r) paths \<and> rs \<noteq> [])
       \<and> (\<forall>u \<in> set paths. getRepository u \<noteq> None \<longrightarrow> (\<exists>!g. g \<in> set groups \<and> u \<in> set (snd g)))
       \<and> (\<forall>u. getRepository u = None \<longrightarrow> (\<forall>g \<in> set groups. u \<notin> set (snd g)))
       \<and> warned = filter (\<lambda>u. getRepository u = None) paths
       \<and> mset (concat (map snd groups)) = mset (filter (\<lambda>u. getRepository u \<noteq> None) paths)
       \<and> (distinct paths \<longrightarrow> distinct (concat (map snd groups)))"
proof -
  note inv = group_by_repository_invariant [of getRepository paths]
  from inv assms have keys: "map fst groups = first_seen (List.map_filter getRepository paths)"
    by simp
  from inv assms have mem: "\<forall>(r, rs) \<in> set groups. rs = filter (\<lambda>u. getRepository u = Some r) paths"
    by simp
  from inv assms have warned: "warned = filter (\<lambda>u. getRepository u = None) paths"
    by simp
  from inv assms have ms: "mset (concat (map snd groups))
      = mset (filter (\<lambda>u. getRepository u \<noteq> None) paths)"
    by simp
  have dist: "distinct (map fst groups)" by (simp add: keys distinct_first_seen)
  have "set (map fst groups) = set (first_seen (List.map_filter getRepository paths))"
    using keys by simp
  then have keyset: "fst ` set groups = {r. \<exists>u \<in> set paths. getRepository u = Some r}"
    by (simp add: set_first_seen set_map_filter)
  have nonempty: "\<forall>(r, rs) \<in> set groups. rs \<noteq> []"
  proof clarify
    fix r assume g: "(r, []) \<in> set groups"
    then have "r \<in> fst ` set groups" by force
    then obtain u where "u \<in> set paths" "getRepository u = Some r" using keyset by auto
    then have "u \<in> set (filter (\<lambda>u. getRepository u = Some r) paths)" by simp
    moreover from g mem have "[] = filter (\<lambda>u. getRepository u = Some r) paths" by auto
    ultimately show False by simp
  qed
  have one: "\<forall>u \<in> set paths. getRepository u \<noteq> None \<longrightarrow> (\<exists>!g. g \<in> set groups \<and> u \<in> set (snd g))"
  proof (intro ballI impI)
    fix u assume u: "u \<in> set paths" and "getRepository u \<noteq> None"
    then obtain r where r: "getRepository u = Some r" by auto
    with u have "r \<in> fst ` set groups" using keyset by auto
    then obtain rs where g: "(r, rs) \<in> set groups" by force
    with mem have rs: "rs = filter (\<lambda>v. getRepository v = Some r) paths" by auto
    show "\<exists>!g. g \<in> set groups \<and> u \<in> set (snd g)"
    proof (rule ex1I [of _ "(r, rs)"])
      show "(r, rs) \<in> set groups \<and> u \<in> set (snd (r, rs))" using g rs u r by simp
    next
      fix g' assume g': "g' \<in> set groups \<and> u \<in> set (snd g')"
      obtain r' rs' where p: "g' = (r', rs')" by (cases g')
      with g' mem have rs': "rs' = filter (\<lambda>v. getRepository v = Some r') paths" by auto
      with g' p have "getRepository u = Some r'" by simp
      with r have "r' = r" by simp
      with rs rs' p show "g' = (r, rs)" by simp
    qed
  qed
  have none: "\<forall>u. getRepository u = None \<longrightarrow> (\<forall>g \<in> set groups. u \<notin> set (snd g))"
  proof (intro allI impI ballI)
    fix u g assume n: "getRepository u = None" and g: "g \<in> set groups"
    obtain r rs where p: "g = (r, rs)" by (cases g)
    with g mem have "rs = filter (\<lambda>v. getRepository v = Some r) paths" by auto
    with n p show "u \<notin> set (snd g)" by simp
  qed
  have d: "distinct paths \<longrightarrow> distinct (concat (map snd groups))"
  proof
    assume "distinct paths"
    then have "distinct (filter (\<lambda>u. getRepository u \<noteq> None) paths)" by simp
    with ms show "distinct (concat (map snd groups))"
      by (metis mset_eq_imp_distinct_iff)
  qed
  from keys dist mem nonempty one none warned ms d show ?thesis by auto
qed

text \<open>Four paths of two repositories and one path of none.\<close>

theorem group_by_repository_partition_witness:
  "group_by_repository example_repository
       [file_uri ''/b/1'', file_uri ''/a/1'', file_uri ''/c'', file_uri ''/b/2'']
     = ([(2, [file_uri ''/b/1'', file_uri ''/b/2'']), (1, [file_uri ''/a/1''])],
        [file_uri ''/c''])
   \<and> first_seen (List.map_filter example_repository
       [file_uri ''/b/1'', file_uri ''/a/1'', file_uri ''/c'', file_uri ''/b/2'']) = [2, 1]
   \<and> distinct (concat (map snd
       [(2::nat, [file_uri ''/b/1'', file_uri ''/b/2'']), (1, [file_uri ''/a/1''])]))"
proof -
  let ?ps = "[file_uri ''/b/1'', file_uri ''/a/1'', file_uri ''/c'', file_uri ''/b/2'']"
  let ?G = "[(2::nat, [file_uri ''/b/1'', file_uri ''/b/2'']), (1, [file_uri ''/a/1''])]"
  have h: "group_by_repository example_repository ?ps = (?G, [file_uri ''/c''])"
    by (simp add: group_by_repository_def group_step_def example_repository_def file_uri_def)
  have d: "distinct ?ps" by (simp add: file_uri_def)
  from group_by_repository_partition [OF h] d
  have "map fst ?G = first_seen (List.map_filter example_repository ?ps)"
    and "distinct (concat (map snd ?G))"
    by blast+
  with h show ?thesis by simp
qed

section \<open>Properties of the commit paths\<close>

lemma rename_sources_mem:
  "Resource r \<in> set states \<Longrightarrow> added_with_rename r = Some src \<Longrightarrow> src \<in> set (rename_sources states)"
  by (induction states rule: rename_sources.induct) (auto split: option.splits)

lemma group_of_resolved:
  assumes "group_by_repository getRepository paths = (groups, warned)"
    and "u \<in> set paths" and "getRepository u = Some repo"
  shows "(repo, filter (\<lambda>v. getRepository v = Some repo) paths) \<in> set groups"
proof -
  note inv = group_by_repository_invariant [of getRepository paths]
  from inv assms(1) have keys: "map fst groups = first_seen (List.map_filter getRepository paths)"
    and mem: "\<forall>(r, rs) \<in> set groups. rs = filter (\<lambda>u. getRepository u = Some r) paths"
    by simp_all
  have "set (map fst groups) = set (first_seen (List.map_filter getRepository paths))"
    using keys by simp
  then have "fst ` set groups = {r. \<exists>u \<in> set paths. getRepository u = Some r}"
    by (simp add: set_first_seen set_map_filter)
  with assms(2,3) have "repo \<in> fst ` set groups" by blast
  then obtain rs where g: "(repo, rs) \<in> set groups" by force
  with mem have "rs = filter (\<lambda>v. getRepository v = Some repo) paths" by auto
  with g show ?thesis by simp
qed

text \<open>
  C8. Both commit commands dispatch, for each selected resource whose status is ADDED and
  that has a rename source, the path of the resource and the path of its rename source:
  \<open>commitWithMessage\<close> in the paths it hands to \<open>commitFiles\<close>, \<open>commit\<close> in the
  resources it hands to \<open>runByRepository\<close>. When both resolve to one repository, the
  group of that repository holds both, so one commit receives both.
\<close>

theorem commit_dispatches_rename_source:
  assumes "res_type r = ADDED" and "renameResourceUri r = Some src"
  shows "(msg \<noteq> [] \<and> Resource r \<in> set states \<longrightarrow>
           (\<exists>paths. commitWithMessage msg (Some states) = Some (msg, paths)
              \<and> fsPath (resourceUri r) \<in> set paths \<and> fsPath src \<in> set paths))
       \<and> (commit_selection args scm = Some selection \<and> r \<in> set selection \<longrightarrow>
           (\<exists>uris. commit_uris args scm = Some uris
              \<and> resourceUri r \<in> set uris \<and> src \<in> set uris
              \<and> (\<forall>groups warned repo.
                    group_by_repository getRepository uris = (groups, warned)
                    \<and> getRepository (resourceUri r) = Some repo
                    \<and> getRepository src = Some repo \<longrightarrow>
                    (\<exists>rs. (repo, rs) \<in> set groups \<and> resourceUri r \<in> set rs \<and> src \<in> set rs))))"
proof (intro conjI impI)
  from assms have a: "added_with_rename r = Some src" by (simp add: added_with_rename_def)
  {
    assume h: "msg \<noteq> [] \<and> Resource r \<in> set states"
    then have "src \<in> set (rename_sources states)" using a by (blast intro: rename_sources_mem)
    moreover from h have "fsPath (state_uri (Resource r)) \<in> (\<lambda>st. fsPath (state_uri st)) ` set states"
      by (intro imageI) simp
    ultimately show "\<exists>paths. commitWithMessage msg (Some states) = Some (msg, paths)
              \<and> fsPath (resourceUri r) \<in> set paths \<and> fsPath src \<in> set paths"
      using h by (simp add: commitWithMessage_def)
  }
  {
    assume h: "commit_selection args scm = Some selection \<and> r \<in> set selection"
    let ?uris = "map resourceUri selection @ rename_sources (map Resource selection)"
    from h have "Resource r \<in> set (map Resource selection)" by simp
    then have s: "src \<in> set ?uris"
      using a by (simp add: rename_sources_mem)
    from h have u: "resourceUri r \<in> set ?uris" by simp
    have g: "\<forall>groups warned repo.
                group_by_repository getRepository ?uris = (groups, warned)
                \<and> getRepository (resourceUri r) = Some repo
                \<and> getRepository src = Some repo \<longrightarrow>
                (\<exists>rs. (repo, rs) \<in> set groups \<and> resourceUri r \<in> set rs \<and> src \<in> set rs)"
    proof (intro allI impI)
      fix groups warned repo
      assume x: "group_by_repository getRepository ?uris = (groups, warned)
                \<and> getRepository (resourceUri r) = Some repo
                \<and> getRepository src = Some repo"
      let ?rs = "filter (\<lambda>v. getRepository v = Some repo) ?uris"
      from x u have "(repo, ?rs) \<in> set groups" by (blast intro: group_of_resolved)
      moreover from x u have "resourceUri r \<in> set ?rs" by simp
      moreover from x s have "src \<in> set ?rs" by simp
      ultimately show "\<exists>rs. (repo, rs) \<in> set groups \<and> resourceUri r \<in> set rs \<and> src \<in> set rs"
        by blast
    qed
    from h u s g show "\<exists>uris. commit_uris args scm = Some uris
              \<and> resourceUri r \<in> set uris \<and> src \<in> set uris
              \<and> (\<forall>groups warned repo.
                    group_by_repository getRepository uris = (groups, warned)
                    \<and> getRepository (resourceUri r) = Some repo
                    \<and> getRepository src = Some repo \<longrightarrow>
                    (\<exists>rs. (repo, rs) \<in> set groups \<and> resourceUri r \<in> set rs \<and> src \<in> set rs))"
      unfolding commit_uris_def by (intro exI [of _ ?uris]) simp
  }
qed

text \<open>
  A commit of one renamed file, by either command, and the group of the one repository
  when every path resolves to it.
\<close>

theorem commit_dispatches_rename_source_witness:
  "(\<exists>paths. commitWithMessage ''rename'' (Some [OtherState (file_uri ''/wc/a''), Resource renamed_resource])
              = Some (''rename'', paths)
       \<and> ''/wc/new.txt'' \<in> set paths \<and> ''/wc/old.txt'' \<in> set paths)
   \<and> (\<exists>uris. commit_uris [State (Resource renamed_resource), NotAState] None = Some uris
       \<and> file_uri ''/wc/new.txt'' \<in> set uris \<and> file_uri ''/wc/old.txt'' \<in> set uris)
   \<and> (\<exists>uris rs. commit_uris [State (Resource renamed_resource), NotAState] None = Some uris
       \<and> (0, rs) \<in> set (fst (group_by_repository (\<lambda>u. Some (0::nat)) uris))
       \<and> file_uri ''/wc/new.txt'' \<in> set rs \<and> file_uri ''/wc/old.txt'' \<in> set rs)"
proof -
  have h1: "res_type renamed_resource = ADDED"
    and h2: "renameResourceUri renamed_resource = Some (file_uri ''/wc/old.txt'')"
    by (simp_all add: renamed_resource_def)
  have h3: "''rename'' \<noteq> [] \<and> Resource renamed_resource
              \<in> set [OtherState (file_uri ''/wc/a''), Resource renamed_resource]"
    by simp
  have h4: "commit_selection [State (Resource renamed_resource), NotAState] None
              = Some [renamed_resource] \<and> renamed_resource \<in> set [renamed_resource]"
    by (simp add: commit_selection_def)
  note t = commit_dispatches_rename_source [OF h1 h2,
      where msg = "''rename''"
        and states = "[OtherState (file_uri ''/wc/a''), Resource renamed_resource]"
        and args = "[State (Resource renamed_resource), NotAState]" and scm = None
        and selection = "[renamed_resource]" and getRepository = example_repository]
  from t h3 have c1: "\<exists>paths. commitWithMessage ''rename''
        (Some [OtherState (file_uri ''/wc/a''), Resource renamed_resource]) = Some (''rename'', paths)
       \<and> fsPath (resourceUri renamed_resource) \<in> set paths
       \<and> fsPath (file_uri ''/wc/old.txt'') \<in> set paths"
    by blast
  from t h4 have c2: "\<exists>uris. commit_uris [State (Resource renamed_resource), NotAState] None = Some uris
       \<and> resourceUri renamed_resource \<in> set uris \<and> file_uri ''/wc/old.txt'' \<in> set uris"
    by blast
  note t' = commit_dispatches_rename_source [OF h1 h2,
      where msg = "''rename''"
        and states = "[OtherState (file_uri ''/wc/a''), Resource renamed_resource]"
        and args = "[State (Resource renamed_resource), NotAState]" and scm = None
        and selection = "[renamed_resource]" and getRepository = "\<lambda>u. Some (0::nat)"]
  from t' h4 obtain uris where u: "commit_uris [State (Resource renamed_resource), NotAState] None
        = Some uris"
    and g: "\<forall>groups warned repo.
        group_by_repository (\<lambda>u. Some (0::nat)) uris = (groups, warned)
        \<and> Some 0 = Some repo \<and> Some 0 = Some repo \<longrightarrow>
        (\<exists>rs. (repo, rs) \<in> set groups \<and> resourceUri renamed_resource \<in> set rs
           \<and> file_uri ''/wc/old.txt'' \<in> set rs)"
    by blast
  have "group_by_repository (\<lambda>u. Some (0::nat)) uris
          = (fst (group_by_repository (\<lambda>u. Some (0::nat)) uris),
             snd (group_by_repository (\<lambda>u. Some (0::nat)) uris))
        \<and> Some (0::nat) = Some 0 \<and> Some (0::nat) = Some 0"
    by simp
  with g have "\<exists>rs. (0, rs) \<in> set (fst (group_by_repository (\<lambda>u. Some (0::nat)) uris))
       \<and> resourceUri renamed_resource \<in> set rs \<and> file_uri ''/wc/old.txt'' \<in> set rs"
    by blast
  with u have c3: "\<exists>uris rs. commit_uris [State (Resource renamed_resource), NotAState] None
        = Some uris
       \<and> (0, rs) \<in> set (fst (group_by_repository (\<lambda>u. Some (0::nat)) uris))
       \<and> resourceUri renamed_resource \<in> set rs \<and> file_uri ''/wc/old.txt'' \<in> set rs"
    by blast
  from c1 c2 c3 show ?thesis by (simp add: renamed_resource_def file_uri_def)
qed

section \<open>Properties of the dispatch\<close>

lemma first_rejection_None:
  "first_rejection ps = None \<longleftrightarrow> (\<forall>t e. Rejects t e \<notin> set ps)"
  by (induction ps rule: first_rejection.induct) (auto split: option.splits)

lemma first_rejection_Some:
  "first_rejection ps = Some (t, e) \<Longrightarrow>
     Rejects t e \<in> set ps \<and> (\<forall>t' e'. Rejects t' e' \<in> set ps \<longrightarrow> t \<le> t')"
proof (induction ps arbitrary: t e rule: first_rejection.induct)
  case (2 t0 e0 ps)
  show ?case
  proof (cases "first_rejection ps")
    case None
    with 2 first_rejection_None [of ps] show ?thesis by auto
  next
    case (Some a)
    obtain t1 e1 where a: "a = (t1, e1)" by (cases a)
    from "2.IH" [of t1 e1] Some a
    have ih: "Rejects t1 e1 \<in> set ps" "\<forall>t' e'. Rejects t' e' \<in> set ps \<longrightarrow> t1 \<le> t'"
      by auto
    show ?thesis
    proof (cases "t1 < t0")
      case True
      with 2 Some a have "t = t1" "e = e1" by auto
      with ih True show ?thesis by auto
    next
      case False
      with 2 Some a have "t = t0" "e = e0" by auto
      with ih False show ?thesis by force
    qed
  qed
qed simp_all

lemma fulfilled_values_all:
  "\<forall>p \<in> set ps. \<exists>t v. p = Fulfils t v \<Longrightarrow>
     \<exists>t vs. fulfilled_values ps = Some (t, vs) \<and> length vs = length ps
        \<and> (\<forall>i<length ps. \<exists>t'. ps ! i = Fulfils t' (vs ! i))"
proof (induction ps)
  case Nil
  then show ?case by simp
next
  case (Cons p ps)
  then obtain t0 v0 where p: "p = Fulfils t0 v0" by auto
  from Cons obtain t vs where ih: "fulfilled_values ps = Some (t, vs)" "length vs = length ps"
      "\<forall>i<length ps. \<exists>t'. ps ! i = Fulfils t' (vs ! i)"
    by auto
  have "\<forall>i<length (p # ps). \<exists>t'. (p # ps) ! i = Fulfils t' ((v0 # vs) ! i)"
  proof (intro allI impI)
    fix i assume "i < length (p # ps)"
    then show "\<exists>t'. (p # ps) ! i = Fulfils t' ((v0 # vs) ! i)"
      using ih(3) p by (cases i) auto
  qed
  with p ih show ?case by simp
qed


text \<open>
  C1 as stated fails: when the operation of one group is rejected, the promise that
  \<open>runByRepository\<close> returns is rejected, and the result of the other group, which is
  fulfilled, does not reach the caller.
\<close>

theorem dispatch_rejection_counterexample:
  "group_promises example_repository (UriArray [file_uri ''/a/x'', file_uri ''/b/y''])
       (\<lambda>r us. if r = 1 then Rejects 1 ''locked'' else Fulfils 2 r)
     = [Rejects 1 ''locked'', Fulfils 2 2]
   \<and> runByRepository example_repository (UriArray [file_uri ''/a/x'', file_uri ''/b/y''])
       (\<lambda>r us. if r = 1 then Rejects 1 ''locked'' else Fulfils 2 r)
     = Rejects 1 ''locked''"
  by (simp add: runByRepository_def group_promises_def Promise_all_def
        group_by_repository_def group_step_def example_repository_def file_uri_def)

text \<open>
  C1, amended. For every batch of paths dispatched via \<open>runByRepository\<close> the operation
  is started once for every repository group, in group order. When the promise of every
  group is fulfilled, the returned promise is fulfilled with the results of the groups in
  group order. When the promise of some group is rejected, the returned promise is
  rejected with the reason of the earliest rejection and carries the result of no group:
  the outcome is all or nothing, as \<open>Promise.all\<close> makes it.
\<close>

theorem runByRepository_all_or_nothing:
  "group_promises getRepository (UriArray resources) f
     = map (\<lambda>(repository, rs). f repository (UriArray rs))
         (fst (group_by_repository getRepository resources))
   \<and> ((\<forall>p \<in> set (group_promises getRepository arg f). \<exists>t v. p = Fulfils t v) \<longrightarrow>
        (\<exists>t vs. runByRepository getRepository arg f = Fulfils t vs
           \<and> length vs = length (group_promises getRepository arg f)
           \<and> (\<forall>i<length vs. \<exists>t'. group_promises getRepository arg f ! i = Fulfils t' (vs ! i))))
   \<and> ((\<exists>t e. Rejects t e \<in> set (group_promises getRepository arg f)) \<longrightarrow>
        (\<exists>t e. runByRepository getRepository arg f = Rejects t e
           \<and> Rejects t e \<in> set (group_promises getRepository arg f)
           \<and> (\<forall>t' e'. Rejects t' e' \<in> set (group_promises getRepository arg f) \<longrightarrow> t \<le> t')))"
proof (intro conjI impI)
  show "group_promises getRepository (UriArray resources) f
     = map (\<lambda>(repository, rs). f repository (UriArray rs))
         (fst (group_by_repository getRepository resources))"
    by (simp add: group_promises_def)
next
  let ?ps = "group_promises getRepository arg f"
  assume all: "\<forall>p \<in> set ?ps. \<exists>t v. p = Fulfils t v"
  then have "\<forall>t e. Rejects t e \<notin> set ?ps" by auto
  then have none: "first_rejection ?ps = None" by (simp add: first_rejection_None)
  from fulfilled_values_all [OF all] obtain t vs where
    "fulfilled_values ?ps = Some (t, vs)" "length vs = length ?ps"
    "\<forall>i<length ?ps. \<exists>t'. ?ps ! i = Fulfils t' (vs ! i)"
    by blast
  with none show "\<exists>t vs. runByRepository getRepository arg f = Fulfils t vs
           \<and> length vs = length ?ps
           \<and> (\<forall>i<length vs. \<exists>t'. ?ps ! i = Fulfils t' (vs ! i))"
    by (simp add: runByRepository_def Promise_all_def)
next
  let ?ps = "group_promises getRepository arg f"
  assume "\<exists>t e. Rejects t e \<in> set ?ps"
  then have "first_rejection ?ps \<noteq> None" by (simp add: first_rejection_None)
  then obtain t e where fr: "first_rejection ?ps = Some (t, e)" by auto
  from first_rejection_Some [OF fr] fr
  show "\<exists>t e. runByRepository getRepository arg f = Rejects t e
           \<and> Rejects t e \<in> set ?ps
           \<and> (\<forall>t' e'. Rejects t' e' \<in> set ?ps \<longrightarrow> t \<le> t')"
    by (auto simp: runByRepository_def Promise_all_def)
qed

text \<open>Two groups that are both fulfilled, and two groups of which the later one is rejected first.\<close>

theorem runByRepository_all_or_nothing_witness:
  "(\<exists>t vs. runByRepository example_repository (UriArray [file_uri ''/b/y'', file_uri ''/a/x''])
         (\<lambda>r us. Fulfils r (r + 10) :: (string, nat) settlement) = Fulfils t vs
       \<and> length vs = length [Fulfils 2 12, Fulfils 1 11 :: (string, nat) settlement]
       \<and> (\<forall>i<length vs. \<exists>t'. [Fulfils 2 12, Fulfils 1 11 :: (string, nat) settlement] ! i
             = Fulfils t' (vs ! i)))
   \<and> (\<exists>t e. runByRepository example_repository (UriArray [file_uri ''/b/y'', file_uri ''/a/x''])
         (\<lambda>r us. if r = 1 then Rejects 3 ''locked'' else Rejects 5 ''too old''
            :: (string, nat) settlement) = Rejects t e
       \<and> Rejects t e \<in> set [Rejects 5 ''too old'', Rejects 3 ''locked'' :: (string, nat) settlement]
       \<and> (\<forall>t' e'. Rejects t' e'
             \<in> set [Rejects 5 ''too old'', Rejects 3 ''locked'' :: (string, nat) settlement]
           \<longrightarrow> t \<le> t'))
   \<and> runByRepository example_repository (UriArray [file_uri ''/b/y'', file_uri ''/a/x''])
         (\<lambda>r us. if r = 1 then Rejects 3 ''locked'' else Rejects 5 ''too old''
            :: (string, nat) settlement) = Rejects 3 ''locked''"
proof -
  let ?arg = "UriArray [file_uri ''/b/y'', file_uri ''/a/x'']"
  let ?ok = "\<lambda>(r::nat) (us::uri_arg). (Fulfils r (r + 10) :: (string, nat) settlement)"
  let ?bad = "\<lambda>(r::nat) (us::uri_arg).
     (if r = 1 then Rejects 3 ''locked'' else Rejects 5 ''too old'' :: (string, nat) settlement)"
  have ok: "group_promises example_repository ?arg ?ok = [Fulfils 2 12, Fulfils 1 11]"
    by (simp add: group_promises_def group_by_repository_def group_step_def
          example_repository_def file_uri_def)
  have bad: "group_promises example_repository ?arg ?bad = [Rejects 5 ''too old'', Rejects 3 ''locked'']"
    by (simp add: group_promises_def group_by_repository_def group_step_def
          example_repository_def file_uri_def)
  have h1: "\<forall>p \<in> set (group_promises example_repository ?arg ?ok). \<exists>t v. p = Fulfils t v"
    unfolding ok by simp
  have h2: "\<exists>t e. Rejects t e \<in> set (group_promises example_repository ?arg ?bad)"
    unfolding bad by auto
  note thm1 = runByRepository_all_or_nothing [of example_repository "[]" ?ok ?arg]
  note thm2 = runByRepository_all_or_nothing [of example_repository "[]" ?bad ?arg]
  from thm1 h1 have c1: "\<exists>t vs. runByRepository example_repository ?arg ?ok = Fulfils t vs
       \<and> length vs = length (group_promises example_repository ?arg ?ok)
       \<and> (\<forall>i<length vs. \<exists>t'. group_promises example_repository ?arg ?ok ! i
             = Fulfils t' (vs ! i))"
    by blast
  from thm2 h2 have c2: "\<exists>t e. runByRepository example_repository ?arg ?bad = Rejects t e
       \<and> Rejects t e \<in> set (group_promises example_repository ?arg ?bad)
       \<and> (\<forall>t' e'. Rejects t' e' \<in> set (group_promises example_repository ?arg ?bad)
            \<longrightarrow> t \<le> t')"
    by blast
  have c3: "runByRepository example_repository ?arg ?bad = Rejects 3 ''locked''"
    unfolding runByRepository_def bad by (simp add: Promise_all_def)
  from c1 c2 c3 show ?thesis unfolding ok bad by (intro conjI)
qed

section \<open>Properties of the process executor\<close>

lemma promise_all_combine:
  "promise_all w = combine (exit_promise w) (stdout_promise w) (stderr_promise w)"
  by (simp add: promise_all_def combine_def)

lemma registered_inv: "waiting_inv registered"
  by (simp add: waiting_inv_def registered_def once_def on_def live_listeners_def)

lemma registered_fields:
  "exit_promise registered = None" "stdout_promise registered = None"
  "stderr_promise registered = None" "stdout_buffers registered = []"
  "stderr_buffers registered = []"
  by (simp_all add: registered_def once_def on_def)

lemma emit_inv:
  assumes "waiting_inv w" and "promise_all w = None"
  shows "waiting_inv (emit env ev w)"
proof -
  from assms(2) have nl: "\<And>e. exit_promise w \<noteq> Some (Inl e)"
    by (auto simp: promise_all_def split: option.splits sum.splits)
  from assms(1) have d: "disposables w = disposables registered"
    by (simp add: waiting_inv_def)
  from assms(1) consider
      (a) "listeners w = live_listeners (\<forall>c. exit_promise w \<noteq> Some (Inr c))
                          (stdout_promise w = None) (stderr_promise w = None)"
    | (b) "listeners w = tl (live_listeners (\<forall>c. exit_promise w \<noteq> Some (Inr c))
                               (stdout_promise w = None) (stderr_promise w = None))"
          "exit_promise w \<noteq> None"
    by (auto simp: waiting_inv_def)
  then show ?thesis
  proof cases
    case a
    show ?thesis
    proof (cases "exit_promise w")
      case None
      then show ?thesis
        by (cases ev; cases "stdout_promise w"; cases "stderr_promise w")
           (simp_all add: emit_def a d listens_def live_listeners_def waiting_inv_def)
    next
      case (Some x)
      with nl obtain c where c: "exit_promise w = Some (Inr c)" by (cases x) auto
      then show ?thesis
        by (cases ev; cases "stdout_promise w"; cases "stderr_promise w")
           (simp_all add: emit_def a d listens_def live_listeners_def waiting_inv_def)
    qed
  next
    case b
    then obtain x where "exit_promise w = Some x" by auto
    with nl obtain c where c: "exit_promise w = Some (Inr c)" by (cases x) auto
    then show ?thesis
      by (cases ev; cases "stdout_promise w"; cases "stderr_promise w")
         (simp_all add: emit_def b d listens_def live_listeners_def waiting_inv_def)
  qed
qed


lemma emit_effect:
  assumes "waiting_inv w" and "promise_all w = None"
  shows "exit_promise (emit env ev w)
           = (case exit_promise w of Some x \<Rightarrow> Some x | None \<Rightarrow> process_outcome [ev])"
    and "stdout_promise (emit env ev w)
           = (case stdout_promise w of
                Some b \<Rightarrow> Some b
              | None \<Rightarrow> if ev = StdoutClose then Some (concat (stdout_buffers w)) else None)"
    and "stderr_promise (emit env ev w)
           = (case stderr_promise w of
                Some t \<Rightarrow> Some t
              | None \<Rightarrow> if ev = StderrClose
                        then Some (bufferToString env (concat (stderr_buffers w))) else None)"
    and "stdout_buffers (emit env ev w)
           = (case ev of StdoutData b \<Rightarrow> stdout_buffers w @ [b] | _ \<Rightarrow> stdout_buffers w)"
    and "stderr_buffers (emit env ev w)
           = (case ev of StderrData b \<Rightarrow> stderr_buffers w @ [b] | _ \<Rightarrow> stderr_buffers w)"
proof -
  from assms(2) have nl: "\<And>e. exit_promise w \<noteq> Some (Inl e)"
    by (auto simp: promise_all_def split: option.splits sum.splits)
  from assms(1) consider
      (a) "listeners w = live_listeners (\<forall>c. exit_promise w \<noteq> Some (Inr c))
                          (stdout_promise w = None) (stderr_promise w = None)"
    | (b) "listeners w = tl (live_listeners (\<forall>c. exit_promise w \<noteq> Some (Inr c))
                               (stdout_promise w = None) (stderr_promise w = None))"
          "exit_promise w \<noteq> None"
    by (auto simp: waiting_inv_def)
  then have "exit_promise (emit env ev w)
           = (case exit_promise w of Some x \<Rightarrow> Some x | None \<Rightarrow> process_outcome [ev])
    \<and> stdout_promise (emit env ev w)
           = (case stdout_promise w of
                Some b \<Rightarrow> Some b
              | None \<Rightarrow> if ev = StdoutClose then Some (concat (stdout_buffers w)) else None)
    \<and> stderr_promise (emit env ev w)
           = (case stderr_promise w of
                Some t \<Rightarrow> Some t
              | None \<Rightarrow> if ev = StderrClose
                        then Some (bufferToString env (concat (stderr_buffers w))) else None)
    \<and> stdout_buffers (emit env ev w)
           = (case ev of StdoutData b \<Rightarrow> stdout_buffers w @ [b] | _ \<Rightarrow> stdout_buffers w)
    \<and> stderr_buffers (emit env ev w)
           = (case ev of StderrData b \<Rightarrow> stderr_buffers w @ [b] | _ \<Rightarrow> stderr_buffers w)"
  proof cases
    case a
    show ?thesis
    proof (cases "exit_promise w")
      case None
      then show ?thesis
        by (cases ev; cases "stdout_promise w"; cases "stderr_promise w")
           (simp_all add: emit_def a listens_def live_listeners_def)
    next
      case (Some x)
      with nl obtain c where c: "exit_promise w = Some (Inr c)" by (cases x) auto
      then show ?thesis
        by (cases ev; cases "stdout_promise w"; cases "stderr_promise w")
           (simp_all add: emit_def a listens_def live_listeners_def)
    qed
  next
    case b
    then obtain x where "exit_promise w = Some x" by auto
    with nl obtain c where c: "exit_promise w = Some (Inr c)" by (cases x) auto
    then show ?thesis
      by (cases ev; cases "stdout_promise w"; cases "stderr_promise w")
         (simp_all add: emit_def b listens_def live_listeners_def)
  qed
  then show "exit_promise (emit env ev w)
           = (case exit_promise w of Some x \<Rightarrow> Some x | None \<Rightarrow> process_outcome [ev])"
    and "stdout_promise (emit env ev w)
           = (case stdout_promise w of
                Some b \<Rightarrow> Some b
              | None \<Rightarrow> if ev = StdoutClose then Some (concat (stdout_buffers w)) else None)"
    and "stderr_promise (emit env ev w)
           = (case stderr_promise w of
                Some t \<Rightarrow> Some t
              | None \<Rightarrow> if ev = StderrClose
                        then Some (bufferToString env (concat (stderr_buffers w))) else None)"
    and "stdout_buffers (emit env ev w)
           = (case ev of StdoutData b \<Rightarrow> stdout_buffers w @ [b] | _ \<Rightarrow> stdout_buffers w)"
    and "stderr_buffers (emit env ev w)
           = (case ev of StderrData b \<Rightarrow> stderr_buffers w @ [b] | _ \<Rightarrow> stderr_buffers w)"
    by simp_all
qed

text \<open>What a waiting call will see, from its state and the events still to come.\<close>

lemma await_all_spec:
  "waiting_inv w \<Longrightarrow>
   snd (await_all env evs w) =
     combine
       (case exit_promise w of Some x \<Rightarrow> Some x | None \<Rightarrow> process_outcome evs)
       (case stdout_promise w of
          Some b \<Rightarrow> Some b
        | None \<Rightarrow> map_option (\<lambda>rest. concat (stdout_buffers w) @ rest) (stdout_bytes evs))
       (case stderr_promise w of
          Some t \<Rightarrow> Some t
        | None \<Rightarrow> map_option (\<lambda>rest. bufferToString env (concat (stderr_buffers w) @ rest))
                    (stderr_bytes evs))"
proof (induction evs arbitrary: w)
  case Nil
  then show ?case
    by (simp add: promise_all_combine combine_def split: option.splits sum.splits)
next
  case (Cons ev evs)
  show ?case
  proof (cases "promise_all w")
    case (Some r)
    then show ?thesis
      by (auto simp: promise_all_combine combine_def split: option.splits sum.splits)
  next
    case None
    note eff = emit_effect [OF Cons.prems None, of env ev]
    have inv': "waiting_inv (emit env ev w)" by (rule emit_inv [OF Cons.prems None])
    have e1: "snd (await_all env (ev # evs) w) = snd (await_all env evs (emit env ev w))"
      using None by simp
    show ?thesis
      unfolding e1 Cons.IH [OF inv'] eff
      by (cases ev; cases "exit_promise w"; cases "stdout_promise w"; cases "stderr_promise w";
          cases "stdout_bytes evs"; cases "stderr_bytes evs")
         simp_all
  qed
qed

lemma await_all_awaited: "snd (await_all env events registered) = awaited env events"
  using await_all_spec [OF registered_inv, of env events]
  by (cases "stdout_bytes events") (simp_all add: registered_fields awaited_def)

lemma await_all_inv: "waiting_inv w \<Longrightarrow> waiting_inv (fst (await_all env evs w))"
proof (induction evs arbitrary: w)
  case Nil
  then show ?case by simp
next
  case (Cons ev evs)
  then show ?case by (cases "promise_all w") (simp_all add: emit_inv)
qed

lemma await_all_settled: "snd (await_all env evs w) = promise_all (fst (await_all env evs w))"
  by (induction evs arbitrary: w) (auto split: option.splits)

lemma dispose_releases: "waiting_inv w \<Longrightarrow> listeners (dispose w) = []"
  by (cases "\<forall>c. exit_promise w \<noteq> Some (Inr c)"; cases "stdout_promise w = None";
      cases "stderr_promise w = None")
     (auto simp: waiting_inv_def dispose_def removeListener_def registered_def once_def on_def
        live_listeners_def)

lemma waiting_listens: "waiting_inv w \<Longrightarrow> listeners w \<noteq> []"
  by (auto simp: waiting_inv_def live_listeners_def)

lemma exec_promise:
  "promise (exec env s cwd args options events) =
     (case awaited env events of
        None \<Rightarrow> Pending
      | Some (Inl e) \<Rightarrow> Rejected (ProcessError e)
      | Some (Inr (code, out, err)) \<Rightarrow>
          snd (exec_finish env (exec_echo s cwd args options) (exec_args args options)
                 options code out err))"
proof -
  obtain w r where a: "await_all env events registered = (w, r)" by (cases "await_all env events registered")
  with await_all_awaited [of env events] have "r = awaited env events" by simp
  with a show ?thesis
    by (auto simp: exec_def Let_def split: option.splits sum.splits prod.splits)
qed

lemma exec_svn_after:
  "svn_after (exec env s cwd args options events) =
     (case awaited env events of
        Some (Inr (code, out, err)) \<Rightarrow>
          fst (exec_finish env (exec_echo s cwd args options) (exec_args args options)
                 options code out err)
      | _ \<Rightarrow> exec_echo s cwd args options)"
proof -
  obtain w r where a: "await_all env events registered = (w, r)" by (cases "await_all env events registered")
  with await_all_awaited [of env events] have "r = awaited env events" by simp
  with a show ?thesis
    by (auto simp: exec_def Let_def split: option.splits sum.splits prod.splits)
qed

lemma exec_spawn_args: "spawn_args (exec env s cwd args options events) = exec_args args options"
  by (auto simp: exec_def Let_def split: option.splits sum.splits prod.splits)

lemma exec_listeners_left:
  "listeners_left (exec env s cwd args options events) =
     (case awaited env events of
        Some (Inr x) \<Rightarrow> []
      | _ \<Rightarrow> listeners (fst (await_all env events registered)))"
proof -
  obtain w r where a: "await_all env events registered = (w, r)" by (cases "await_all env events registered")
  with await_all_awaited [of env events] have r: "r = awaited env events" by simp
  from await_all_inv [OF registered_inv, of env events] a have "waiting_inv w" by simp
  then have "listeners (dispose w) = []" by (rule dispose_releases)
  with a r show ?thesis
    by (auto simp: exec_def Let_def split: option.splits sum.splits prod.splits)
qed

text \<open>
  The listeners of a call are all released when the wait ends with an exit code, and some
  are left when it ends with the \<^verbatim>\<open>error\<close> event or never ends.
\<close>

lemma exec_listeners_released_iff:
  "listeners_left (exec env s cwd args options events) = []
     \<longleftrightarrow> (\<exists>x. awaited env events = Some (Inr x))"
proof -
  from await_all_inv [OF registered_inv, of env events]
  have "listeners (fst (await_all env events registered)) \<noteq> []" by (rule waiting_listens)
  then show ?thesis
    by (auto simp: exec_listeners_left split: option.splits sum.splits)
qed

section \<open>Properties of the encoding of stdout\<close>

lemma exec_args_superset: "set args \<subseteq> set (exec_args args options)"
  by (auto simp: exec_args_def push_credential_def split: option.splits)

lemma exec_finish_stdout:
  "decoded_stdout (snd (exec_finish env s args options code out err))
     = Some (decode env out (fst (exec_encoding env s args (exec_hint options) out)))"
  by (simp add: exec_finish_def Let_def split: prod.splits)

text \<open>
  C6. For every argument vector that contains \<open>--xml\<close> the encoding that decodes stdout
  is \<open>utf8\<close>, whatever the environment (with its configured default encoding), the
  encoding hint and the bytes of stdout are; and a call of \<open>exec\<close> with such arguments
  that ends with an exit code decodes stdout with \<open>utf8\<close>.
\<close>

theorem xml_output_decoded_as_utf8:
  assumes "''--xml'' \<in> set args"
  shows "exec_encoding env s args encoding out = (''utf8'', s)
       \<and> (\<forall>code bytes err. awaited env events = Some (Inr (code, bytes, err)) \<longrightarrow>
            decoded_stdout (promise (exec env s cwd args options events))
              = Some (decode env bytes ''utf8''))"
proof
  from assms show "exec_encoding env s args encoding out = (''utf8'', s)"
    by (simp add: exec_encoding_def)
next
  from assms exec_args_superset have x: "''--xml'' \<in> set (exec_args args options)" by blast
  show "\<forall>code bytes err. awaited env events = Some (Inr (code, bytes, err)) \<longrightarrow>
            decoded_stdout (promise (exec env s cwd args options events))
              = Some (decode env bytes ''utf8'')"
    using x by (simp add: exec_promise exec_finish_stdout exec_encoding_def)
qed

text \<open>
  A status call with \<open>--xml\<close>, a configured default encoding, a hint and a detector that
  is sure of another encoding.
\<close>

theorem xml_output_decoded_as_utf8_witness:
  "exec_encoding (example_env\<lparr>default_encoding := Some ''windows-1252''\<rparr>) example_svn
       [''status'', ''--xml''] ''latin1'' ''<status/>'' = (''utf8'', example_svn)
   \<and> decoded_stdout (promise (exec (example_env\<lparr>decode := (\<lambda>b e. e @ '':'' @ b)\<rparr>) example_svn
         ''/wc'' [''status'', ''--xml''] (example_options\<lparr>opt_encoding := Some ''latin1''\<rparr>)
         [StdoutData ''<status/>'', StdoutClose, StderrClose, ProcExit (Some 0)]))
       = Some ''utf8:<status/>''"
proof -
  have h: "''--xml'' \<in> set [''status'', ''--xml'']" by simp
  have a: "awaited (example_env\<lparr>decode := (\<lambda>b e. e @ '':'' @ b)\<rparr>)
             [StdoutData ''<status/>'', StdoutClose, StderrClose, ProcExit (Some 0)]
           = Some (Inr (Some 0, ''<status/>'', []))"
    by (simp add: awaited_def combine_def example_env_def)
  from xml_output_decoded_as_utf8 [OF h,
      of "example_env\<lparr>default_encoding := Some ''windows-1252''\<rparr>" example_svn "''latin1''"
         "''<status/>''"]
  have c1: "exec_encoding (example_env\<lparr>default_encoding := Some ''windows-1252''\<rparr>) example_svn
       [''status'', ''--xml''] ''latin1'' ''<status/>'' = (''utf8'', example_svn)"
    by blast
  from xml_output_decoded_as_utf8 [OF h,
      of "example_env\<lparr>decode := (\<lambda>b e. e @ '':'' @ b)\<rparr>" example_svn "[]" "[]"
         "[StdoutData ''<status/>'', StdoutClose, StderrClose, ProcExit (Some 0)]" "''/wc''"
         "example_options\<lparr>opt_encoding := Some ''latin1''\<rparr>"] a
  have c2: "decoded_stdout (promise (exec (example_env\<lparr>decode := (\<lambda>b e. e @ '':'' @ b)\<rparr>)
         example_svn ''/wc'' [''status'', ''--xml'']
         (example_options\<lparr>opt_encoding := Some ''latin1''\<rparr>)
         [StdoutData ''<status/>'', StdoutClose, StderrClose, ProcExit (Some 0)]))
       = Some (decode (example_env\<lparr>decode := (\<lambda>b e. e @ '':'' @ b)\<rparr>) ''<status/>'' ''utf8'')"
    by blast
  from c1 c2 show ?thesis by simp
qed




section \<open>Properties of the invocation echo and the credentials\<close>

lemma exec_encoding_output:
  "\<exists>more. onOutput (snd (exec_encoding env s args encoding out)) = onOutput s @ more"
  by (auto simp: exec_encoding_def logOutput_def Let_def split: option.splits)

lemma exec_finish_output:
  "\<exists>more. onOutput (fst (exec_finish env s args options code out err)) = onOutput s @ more"
proof -
  obtain e s3 where a: "exec_encoding env s args (exec_hint options) out = (e, s3)"
    by (cases "exec_encoding env s args (exec_hint options) out")
  with exec_encoding_output [of env s args "exec_hint options" out]
  obtain more where "onOutput s3 = onOutput s @ more" by auto
  with a show ?thesis by (auto simp: exec_finish_def Let_def logOutput_def)
qed

lemma exec_echo_output:
  "opt_log options \<noteq> Some False \<Longrightarrow>
     onOutput (exec_echo s cwd args options)
       = onOutput s @ [echo_line (if cwd \<noteq> [] then cwd else lastCwd s) args]"
  by (simp add: exec_echo_def logOutput_def)

lemma exec_output:
  assumes "opt_log options \<noteq> Some False"
  shows "\<exists>more. onOutput (svn_after (exec env s cwd args options events))
           = onOutput s @ echo_line (if cwd \<noteq> [] then cwd else lastCwd s) args # more"
proof (cases "\<exists>code out err. awaited env events = Some (Inr (code, out, err))")
  case True
  then obtain code out err where a: "awaited env events = Some (Inr (code, out, err))" by blast
  from exec_finish_output [of env "exec_echo s cwd args options" "exec_args args options" options code out err]
  obtain more where "onOutput (fst (exec_finish env (exec_echo s cwd args options)
      (exec_args args options) options code out err)) = onOutput (exec_echo s cwd args options) @ more"
    by blast
  with a assms show ?thesis by (simp add: exec_svn_after exec_echo_output)
next
  case False
  then have "svn_after (exec env s cwd args options events) = exec_echo s cwd args options"
    by (auto simp: exec_svn_after split: option.splits sum.splits)
  with assms show ?thesis by (simp add: exec_echo_output)
qed

lemma first_logged_echo:
  assumes "opt_log options \<noteq> Some False"
  shows "first_logged s (exec env s cwd args options events)
           = Some (echo_line (if cwd \<noteq> [] then cwd else lastCwd s) args)"
proof -
  from exec_output [OF assms, of env s cwd args events]
  obtain more where "onOutput (svn_after (exec env s cwd args options events))
           = onOutput s @ echo_line (if cwd \<noteq> [] then cwd else lastCwd s) args # more"
    by blast
  then show ?thesis by (simp add: first_logged_def)
qed

text \<open>
  C10. With logging enabled, the invocation echo of a call is the same line whatever
  user name and password the options carry, also none: it is built from the working
  directory and the caller's arguments alone, and it is the first line the call logs.
  The credentials only reach the arguments of the spawned process, behind the caller's.
\<close>

theorem echo_independent_of_credentials:
  assumes "opt_log options \<noteq> Some False"
  shows "first_logged s (exec env s cwd args
             (options\<lparr>opt_username := user, opt_password := pass\<rparr>) events)
           = first_logged s (exec env s cwd args
               (options\<lparr>opt_username := None, opt_password := None\<rparr>) events')
       \<and> first_logged s (exec env s cwd args
             (options\<lparr>opt_username := user, opt_password := pass\<rparr>) events)
           = Some (echo_line (if cwd \<noteq> [] then cwd else lastCwd s) args)
       \<and> spawn_args (exec env s cwd args
             (options\<lparr>opt_username := user, opt_password := pass\<rparr>) events)
           = args @ (if truthy user then [''--username'', the user] else [])
                  @ (if truthy pass then [''--password'', the pass] else [])"
proof -
  from assms have l1: "opt_log (options\<lparr>opt_username := user, opt_password := pass\<rparr>) \<noteq> Some False"
    and l2: "opt_log (options\<lparr>opt_username := None, opt_password := None\<rparr>) \<noteq> Some False"
    by simp_all
  have "spawn_args (exec env s cwd args
             (options\<lparr>opt_username := user, opt_password := pass\<rparr>) events)
           = args @ (if truthy user then [''--username'', the user] else [])
                  @ (if truthy pass then [''--password'', the pass] else [])"
    by (cases user; cases pass) (simp_all add: exec_spawn_args exec_args_def push_credential_def)
  with first_logged_echo [OF l1] first_logged_echo [OF l2] show ?thesis by simp
qed

text \<open>The same status call with and without credentials.\<close>

theorem echo_independent_of_credentials_witness:
  "first_logged example_svn (exec example_env example_svn ''/home/me/wc'' [''update'', ''my file'']
       (example_options\<lparr>opt_username := Some ''alice'', opt_password := Some ''s3cret''\<rparr>)
       [ProcExit (Some 0), StdoutClose, StderrClose])
     = first_logged example_svn (exec example_env example_svn ''/home/me/wc'' [''update'', ''my file'']
       (example_options\<lparr>opt_username := None, opt_password := None\<rparr>)
       [ProcExit (Some 0), StdoutClose, StderrClose])
   \<and> first_logged example_svn (exec example_env example_svn ''/home/me/wc'' [''update'', ''my file'']
       (example_options\<lparr>opt_username := Some ''alice'', opt_password := Some ''s3cret''\<rparr>)
       [ProcExit (Some 0), StdoutClose, StderrClose])
     = Some (''[wc]$ svn update '' @ [CHR 0x27] @ ''my file'' @ [CHR 0x27, CHR 0x0A])
   \<and> spawn_args (exec example_env example_svn ''/home/me/wc'' [''update'', ''my file'']
       (example_options\<lparr>opt_username := Some ''alice'', opt_password := Some ''s3cret''\<rparr>)
       [ProcExit (Some 0), StdoutClose, StderrClose])
     = [''update'', ''my file'', ''--username'', ''alice'', ''--password'', ''s3cret'']"
proof -
  have h: "opt_log example_options \<noteq> Some False" by (simp add: example_options_def)
  have e: "echo_line (if ''/home/me/wc'' \<noteq> [] then ''/home/me/wc'' else lastCwd example_svn)
             [''update'', ''my file'']
           = ''[wc]$ svn update '' @ [CHR 0x27] @ ''my file'' @ [CHR 0x27, CHR 0x0A]"
    by (simp add: echo_line_def last_segment_def is_separator_def quote_arg_def)
  have a: "[''update'', ''my file'']
             @ (if truthy (Some ''alice'') then [''--username'', the (Some ''alice'')] else [])
             @ (if truthy (Some ''s3cret'') then [''--password'', the (Some ''s3cret'')] else [])
           = [''update'', ''my file'', ''--username'', ''alice'', ''--password'', ''s3cret'']"
    by simp
  note t = echo_independent_of_credentials [OF h, where s = example_svn and env = example_env
      and cwd = "''/home/me/wc''" and args = "[''update'', ''my file'']"
      and user = "Some ''alice''" and pass = "Some ''s3cret''"
      and events = "[ProcExit (Some 0), StdoutClose, StderrClose]"
      and events' = "[ProcExit (Some 0), StdoutClose, StderrClose]"]
  show ?thesis using t unfolding e a .
qed

section \<open>Properties of the listeners\<close>

text \<open>
  C2 fails on the code. When the process cannot be launched and emits \<open>error\<close>, the call
  is rejected with that error and \<open>dispose\<close> never runs: the listener for \<open>exit\<close> and
  the four listeners on the two streams stay registered.
\<close>

theorem launch_failure_leaves_listeners:
  "promise (exec env s cwd args options [ProcError e]) = Rejected (ProcessError e)
   \<and> listeners_left (exec env s cwd args options [ProcError e]) =
       [\<lparr>on_emitter = Process, on_name = ''exit'', is_once = True, fn = ResolveExit\<rparr>,
        \<lparr>on_emitter = ProcessStdout, on_name = ''data'', is_once = False, fn = PushStdout\<rparr>,
        \<lparr>on_emitter = ProcessStdout, on_name = ''close'', is_once = True, fn = ResolveStdout\<rparr>,
        \<lparr>on_emitter = ProcessStderr, on_name = ''data'', is_once = False, fn = PushStderr\<rparr>,
        \<lparr>on_emitter = ProcessStderr, on_name = ''close'', is_once = True, fn = ResolveStderr\<rparr>]
   \<and> listeners_left (exec env s cwd args options [ProcError e]) \<noteq> []"
proof -
  have a: "await_all env [ProcError e] registered =
     (registered\<lparr>listeners := tl (listeners registered), exit_promise := Some (Inl e)\<rparr>,
      Some (Inl e))"
    by (simp add: registered_def once_def on_def promise_all_def emit_def listens_def)
  show ?thesis
    unfolding exec_def Let_def a by (simp add: registered_def once_def on_def)
qed

section \<open>Properties of the outcome of a call\<close>










end
